theory Spec2Isabelle
  imports Complex_Main "HOL-Library.AList" "HOL-Library.Multiset"
begin

section \<open>Configuration and data model of the snake server\<close>

text \<open>
  The game configuration of \<^verbatim>\<open>server.py\<close>. Python integers are unbounded, so
  coordinates and counters are \<open>int\<close>.
\<close>

definition WIDTH :: int where "WIDTH = 40"
definition HEIGHT :: int where "HEIGHT = 30"
definition START_LENGTH :: int where "START_LENGTH = 3"
definition FOOD_COUNT :: int where "FOOD_COUNT = 5"

text \<open>
  A Python \<^verbatim>\<open>str\<close> supplied by a client (player identity, display name) is a sequence
  of Unicode code points; \<open>ustr\<close> embeds an ASCII literal. Strings that only ever hold
  literals of the program (death causes, colours) are plain \<open>string\<close>s.
\<close>

type_synonym pystr = "nat list"

definition ustr :: "string \<Rightarrow> pystr" where
  "ustr s = map of_char s"

type_synonym cell = "int \<times> int"

datatype py_error = IndexError | KeyError | AttributeError

text \<open>
  The player dictionary of \<^verbatim>\<open>add_player\<close>. A direction is stored by its numeric
  value; \<open>last_input_time\<close> holds the value of \<^verbatim>\<open>time.time()\<close>, which is only stored
  and never computed with.
\<close>

record player =
  pid :: pystr
  display_name :: pystr
  body :: "cell list"
  dir :: "int \<times> int"
  pending_dir :: "int \<times> int"
  alive :: bool
  score :: int
  food_collected :: int
  color :: string
  last_input_time :: real
  spawn_tick :: int

text \<open>
  \<^verbatim>\<open>GameState\<close>. The dictionary \<^verbatim>\<open>players\<close> is iterated by \<^verbatim>\<open>step\<close>, so it is an
  association list in insertion order (its keys are distinct, as in every Python
  dictionary); \<^verbatim>\<open>death_reasons\<close> is only looked up and is a map.
\<close>

record game =
  players :: "(pystr \<times> player) list"
  food :: "cell list"
  occupied :: "cell set"
  tick :: int
  death_reasons :: "pystr \<rightharpoonup> string"

subsection \<open>Spatial utilities\<close>

definition clamp_pos :: "int \<Rightarrow> int \<Rightarrow> cell" where
  "clamp_pos x y = (x mod WIDTH, y mod HEIGHT)"

subsection \<open>First pass of \<^verbatim>\<open>step\<close>: direction commit and head projection\<close>

definition commit_dir :: "player \<Rightarrow> player" where
  "commit_dir p =
     (case pending_dir p of (pending_dx, pending_dy) \<Rightarrow>
      case dir p of (current_dx, current_dy) \<Rightarrow>
        if (pending_dx, pending_dy) \<noteq> (- current_dx, - current_dy)
        then p\<lparr>dir := (pending_dx, pending_dy)\<rparr> else p)"

text \<open>\<^verbatim>\<open>player["body"][0]\<close> raises \<^verbatim>\<open>IndexError\<close> on an empty body.\<close>

definition project_head :: "player \<Rightarrow> py_error + cell" where
  "project_head p =
     (case body p of
        [] \<Rightarrow> Inl IndexError
      | (head_x, head_y) # _ \<Rightarrow>
          (case dir p of (dx, dy) \<Rightarrow> Inr (clamp_pos (head_x + dx) (head_y + dy))))"

definition cons_res :: "'a \<Rightarrow> py_error + ('a list \<times> 'b) \<Rightarrow> py_error + ('a list \<times> 'b)" where
  "cons_res x r = (case r of Inl e \<Rightarrow> Inl e | Inr (xs, a) \<Rightarrow> Inr (x # xs, a))"

text \<open>
  The loop over \<^verbatim>\<open>self.players.items()\<close> that fills \<^verbatim>\<open>new_heads\<close>; the result is the
  players with their committed directions and the dictionary \<^verbatim>\<open>new_heads\<close>.
\<close>

fun first_pass :: "(pystr \<times> player) list \<Rightarrow> py_error + ((pystr \<times> player) list \<times> (pystr \<times> cell) list)" where
  "first_pass [] = Inr ([], [])"
| "first_pass ((k, p) # ps) =
     (if \<not> alive p then cons_res (k, p) (first_pass ps)
      else (case project_head (commit_dir p) of
              Inl e \<Rightarrow> Inl e
            | Inr new_head \<Rightarrow>
                (case first_pass ps of
                   Inl e \<Rightarrow> Inl e
                 | Inr (ps', new_heads) \<Rightarrow> Inr ((k, commit_dir p) # ps', (k, new_head) # new_heads))))"


subsection \<open>Third pass of \<^verbatim>\<open>step\<close>: food collection and collisions\<close>

text \<open>
  \<^verbatim>\<open>temp_occupied\<close>: the bodies of the alive players and the food, before anything moves.
\<close>

definition build_temp_occupied :: "(pystr \<times> player) list \<Rightarrow> cell list \<Rightarrow> cell set" where
  "build_temp_occupied ps fd =
     set (concat (map (\<lambda>(k, p). body p) (filter (\<lambda>(k, p). alive p) ps))) \<union> set fd"

text \<open>The variables that the collision loop mutates.\<close>

record resolve =
  r_food :: "cell list"
  temp_occupied :: "cell set"
  snakes_to_grow :: "pystr list"
  dead_snakes :: "pystr set"
  r_reasons :: "pystr \<rightharpoonup> string"

definition eat_food :: "pystr \<Rightarrow> cell \<Rightarrow> player \<Rightarrow> resolve \<Rightarrow> player \<times> resolve" where
  "eat_food k new_head p a =
     (if new_head \<in> set (r_food a)
      then (p\<lparr>food_collected := food_collected p + 1\<rparr>,
            a\<lparr>snakes_to_grow := snakes_to_grow a @ [k],
              r_food := remove1 new_head (r_food a),
              temp_occupied := temp_occupied a - {new_head}\<rparr>)
      else (p, a))"

text \<open>The inner loop over \<^verbatim>\<open>new_heads.items()\<close>.\<close>

fun head_to_head :: "pystr \<Rightarrow> cell \<Rightarrow> (pystr \<times> cell) list \<Rightarrow> resolve \<Rightarrow> resolve" where
  "head_to_head k new_head [] a = a"
| "head_to_head k new_head ((other_id, other_new_head) # rest) a =
     (if other_id = k then head_to_head k new_head rest a
      else if new_head = other_new_head
      then head_to_head k new_head rest
             (a\<lparr>dead_snakes := insert other_id (insert k (dead_snakes a)),
                r_reasons := (r_reasons a)(k \<mapsto> ''head_collision'', other_id \<mapsto> ''head_collision'')\<rparr>)
      else head_to_head k new_head rest a)"

text \<open>
  The collision check against \<^verbatim>\<open>temp_occupied\<close>. The source scans the set for a position
  equal to \<^verbatim>\<open>new_head\<close> that is not excluded and stops at the first one; at most one
  element of a set is equal to \<^verbatim>\<open>new_head\<close>, so the scan is a membership test.
\<close>

definition body_check :: "pystr \<Rightarrow> cell \<Rightarrow> player \<Rightarrow> resolve \<Rightarrow> resolve" where
  "body_check k new_head p a =
     (if k \<notin> dead_snakes a
      then (let excluded_positions =
                  (if k \<notin> set (snakes_to_grow a) \<and> body p \<noteq> [] then {last (body p)} else {})
            in if new_head \<in> temp_occupied a \<and> new_head \<notin> excluded_positions
               then a\<lparr>dead_snakes := insert k (dead_snakes a),
                      r_reasons := (r_reasons a)(k \<mapsto> (if new_head \<in> set (body p) then ''self'' else ''other''))\<rparr>
               else a)
      else a)"

definition check_player :: "(pystr \<times> cell) list \<Rightarrow> pystr \<Rightarrow> cell \<Rightarrow> player \<Rightarrow> resolve \<Rightarrow> player \<times> resolve" where
  "check_player new_heads k new_head p a =
     (case eat_food k new_head p a of
        (p', a1) \<Rightarrow> (p', body_check k new_head p' (head_to_head k new_head new_heads a1)))"

fun third_pass :: "(pystr \<times> cell) list \<Rightarrow> (pystr \<times> player) list \<Rightarrow> resolve \<Rightarrow> py_error + ((pystr \<times> player) list \<times> resolve)" where
  "third_pass new_heads [] a = Inr ([], a)"
| "third_pass new_heads ((k, p) # ps) a =
     (if \<not> alive p then cons_res (k, p) (third_pass new_heads ps a)
      else (case map_of new_heads k of
              None \<Rightarrow> Inl KeyError
            | Some new_head \<Rightarrow>
                (case check_player new_heads k new_head p a of
                   (p', a') \<Rightarrow> cons_res (k, p') (third_pass new_heads ps a'))))"

subsection \<open>Fourth pass of \<^verbatim>\<open>step\<close>: moving the snakes\<close>

definition move_player :: "cell \<Rightarrow> bool \<Rightarrow> player \<Rightarrow> player" where
  "move_player new_head grows p =
     (let b = new_head # body p in
      if grows then p\<lparr>body := b, score := score p + 1\<rparr>
      else if int (length b) > START_LENGTH then p\<lparr>body := butlast b\<rparr>
      else p\<lparr>body := b\<rparr>)"

fun move_pass :: "(pystr \<times> cell) list \<Rightarrow> pystr list \<Rightarrow> pystr set \<Rightarrow> (pystr \<times> player) list \<Rightarrow> cell set \<Rightarrow> py_error + ((pystr \<times> player) list \<times> cell set)" where
  "move_pass new_heads grow dead [] occ = Inr ([], occ)"
| "move_pass new_heads grow dead ((k, p) # ps) occ =
     (if \<not> alive p then cons_res (k, p) (move_pass new_heads grow dead ps occ)
      else if k \<in> dead then cons_res (k, p\<lparr>alive := False\<rparr>) (move_pass new_heads grow dead ps occ)
      else (case map_of new_heads k of
              None \<Rightarrow> Inl KeyError
            | Some new_head \<Rightarrow>
                (let p' = move_player new_head (k \<in> set grow) p
                 in cons_res (k, p') (move_pass new_heads grow dead ps (occ \<union> set (body p'))))))"

text \<open>
  The loop over \<^verbatim>\<open>dead_snakes\<close> after the move: every dead snake that is a player is
  marked not alive and its body is taken out of \<^verbatim>\<open>occupied\<close>. The order in which the
  set is visited does not matter, so the players are visited in their own order.
\<close>

definition clean_up :: "pystr set \<Rightarrow> (pystr \<times> player) list \<Rightarrow> cell set \<Rightarrow> (pystr \<times> player) list \<times> cell set" where
  "clean_up dead ps occ =
     (map (\<lambda>(k, p). (k, if k \<in> dead then p\<lparr>alive := False\<rparr> else p)) ps,
      occ - set (concat (map (\<lambda>(k, p). body p) (filter (\<lambda>(k, p). k \<in> dead) ps))))"

text \<open>Everything of \<^verbatim>\<open>step\<close> before the food is replenished.\<close>

definition step_resolve :: "game \<Rightarrow> py_error + game" where
  "step_resolve g =
     (case first_pass (players g) of
        Inl e \<Rightarrow> Inl e
      | Inr (ps1, new_heads) \<Rightarrow>
          (case third_pass new_heads ps1
                  \<lparr>r_food = food g, temp_occupied = build_temp_occupied ps1 (food g),
                   snakes_to_grow = [], dead_snakes = {}, r_reasons = death_reasons g\<rparr> of
             Inl e \<Rightarrow> Inl e
           | Inr (ps2, a) \<Rightarrow>
               (case move_pass new_heads (snakes_to_grow a) (dead_snakes a) ps2 (set (r_food a)) of
                  Inl e \<Rightarrow> Inl e
                | Inr (ps3, occ) \<Rightarrow>
                    (case clean_up (dead_snakes a) ps3 occ of
                       (ps4, occ') \<Rightarrow>
                         Inr (g\<lparr>players := ps4, food := r_food a, occupied := occ',
                                death_reasons := r_reasons a\<rparr>)))))"

subsection \<open>Randomness\<close>

text \<open>
  \<^verbatim>\<open>random.randint\<close> is modelled by an arbitrary infinite sequence of numbers and a
  position in it: every sequence of draws of the program is the image of some
  sequence. All ranges drawn from are non-empty for the configuration above.
\<close>

type_synonym rng = "(nat \<Rightarrow> nat) \<times> nat"

definition randint :: "int \<Rightarrow> int \<Rightarrow> rng \<Rightarrow> int \<times> rng" where
  "randint lo hi r = (case r of (f, i) \<Rightarrow> (lo + int (f i mod nat (hi - lo + 1)), (f, Suc i)))"

definition random_cell :: "rng \<Rightarrow> cell \<times> rng" where
  "random_cell r =
     (case randint 0 (WIDTH - 1) r of (x, r1) \<Rightarrow>
      case randint 0 (HEIGHT - 1) r1 of (y, r2) \<Rightarrow> ((x, y), r2))"

fun try_random :: "nat \<Rightarrow> cell set \<Rightarrow> rng \<Rightarrow> cell option \<times> rng" where
  "try_random 0 occ r = (None, r)"
| "try_random (Suc n) occ r =
     (case random_cell r of (c, r') \<Rightarrow>
        if c \<notin> occ then (Some c, r') else try_random n occ r')"

definition grid_cells :: "cell list" where
  "grid_cells = concat (map (\<lambda>x. map (\<lambda>y. (x, y)) [0..HEIGHT - 1]) [0..WIDTH - 1])"

definition find_empty_position :: "cell set \<Rightarrow> rng \<Rightarrow> cell \<times> rng" where
  "find_empty_position occ r =
     (case try_random 100 occ r of
        (Some c, r') \<Rightarrow> (c, r')
      | (None, r') \<Rightarrow>
          (case find (\<lambda>c. c \<notin> occ) grid_cells of
             Some c \<Rightarrow> (c, r')
           | None \<Rightarrow> random_cell r'))"

subsection \<open>Food\<close>

text \<open>
  \<^verbatim>\<open>spawn_food\<close> is a \<^verbatim>\<open>while\<close> loop that ends only when enough food has been placed;
  \<open>None\<close> is the loop that never ends.
\<close>

partial_function (option) spawn_food :: "game \<Rightarrow> rng \<Rightarrow> (game \<times> rng) option" where
  "spawn_food g r =
     (if int (length (food g)) < FOOD_COUNT
      then (case find_empty_position (occupied g) r of
              (pos, r') \<Rightarrow>
                if pos \<notin> occupied g
                then spawn_food (g\<lparr>food := food g @ [pos], occupied := insert pos (occupied g)\<rparr>) r'
                else spawn_food g r')
      else Some (g, r))"

definition step :: "game \<Rightarrow> rng \<Rightarrow> (py_error + (game \<times> rng)) option" where
  "step g r =
     (case step_resolve g of
        Inl e \<Rightarrow> Some (Inl e)
      | Inr g1 \<Rightarrow>
          (case spawn_food g1 r of
             None \<Rightarrow> None
           | Some (g2, r') \<Rightarrow> Some (Inr (g2\<lparr>tick := tick g2 + 1\<rparr>, r'))))"


subsection \<open>Players joining and leaving\<close>

text \<open>\<^verbatim>\<open>str\<close> of a Python integer, for the colour \<^verbatim>\<open>f"hsl({hue}, 100%, 50%)"\<close>.\<close>

function str_nat :: "nat \<Rightarrow> string" where
  "str_nat n = (if n < 10 then [char_of (48 + n)] else str_nat (n div 10) @ [char_of (48 + n mod 10)])"
  by pat_completeness auto
termination
  by (relation "measure id") auto

declare str_nat.simps [simp del]

definition str_int :: "int \<Rightarrow> string" where
  "str_int i = (if i < 0 then CHR ''-'' # str_nat (nat (- i)) else str_nat (nat i))"

definition new_player :: "real \<Rightarrow> pystr \<Rightarrow> pystr \<Rightarrow> cell list \<Rightarrow> int \<Rightarrow> int \<Rightarrow> player" where
  "new_player now player_id name b hue t =
     \<lparr>pid = player_id, display_name = name, body = b, dir = (1, 0), pending_dir = (1, 0),
      alive = True, score = 0, food_collected = 0,
      color = ''hsl('' @ str_int hue @ '', 100%, 50%)'',
      last_input_time = now, spawn_tick = t\<rparr>"

text \<open>
  One spawn attempt: the inner loop builds the body leftwards from the anchor and gives
  up at the first occupied cell.
\<close>

definition spawn_candidate :: "int \<Rightarrow> int \<Rightarrow> cell list" where
  "spawn_candidate spawn_x spawn_y =
     map (\<lambda>i. ((spawn_x - i) mod WIDTH, spawn_y)) [0..START_LENGTH - 1]"

definition try_body :: "int \<Rightarrow> int \<Rightarrow> cell set \<Rightarrow> cell list option" where
  "try_body spawn_x spawn_y all_occupied =
     (let b = spawn_candidate spawn_x spawn_y
      in if list_ex (\<lambda>pos. pos \<in> all_occupied) b then None else Some b)"

fun try_spawn :: "nat \<Rightarrow> cell set \<Rightarrow> rng \<Rightarrow> cell list option \<times> rng" where
  "try_spawn 0 all_occupied r = (None, r)"
| "try_spawn (Suc n) all_occupied r =
     (case randint (START_LENGTH + 2) (WIDTH - START_LENGTH - 3) r of (spawn_x, r1) \<Rightarrow>
      case randint 2 (HEIGHT - 3) r1 of (spawn_y, r2) \<Rightarrow>
        (case try_body spawn_x spawn_y all_occupied of
           Some b \<Rightarrow> (Some b, r2)
         | None \<Rightarrow> try_spawn n all_occupied r2))"

definition fallback_body :: "int \<Rightarrow> int \<Rightarrow> cell list" where
  "fallback_body spawn_x spawn_y =
     (spawn_x, spawn_y) # map (\<lambda>i. ((spawn_x - i) mod WIDTH, spawn_y)) [1..START_LENGTH - 1]"

text \<open>
  \<^verbatim>\<open>add_player\<close>; \<open>now\<close> is the value of \<^verbatim>\<open>time.time()\<close>. Assigning to
  \<^verbatim>\<open>self.players[player_id]\<close> replaces the value of an existing key in place and appends
  a new key, which is \<open>AList.update\<close>.
\<close>

definition add_player :: "real \<Rightarrow> pystr \<Rightarrow> pystr option \<Rightarrow> game \<Rightarrow> rng \<Rightarrow> game \<times> rng" where
  "add_player now player_id display_name_opt g r =
     (let name = (case display_name_opt of None \<Rightarrow> player_id | Some n \<Rightarrow> n)
      in case try_spawn 100 (occupied g) r of
           (Some b, r1) \<Rightarrow>
             (case randint 0 360 r1 of (hue, r2) \<Rightarrow>
                (g\<lparr>occupied := occupied g \<union> set b,
                   players := AList.update player_id (new_player now player_id name b hue (tick g)) (players g)\<rparr>,
                 r2))
         | (None, r1) \<Rightarrow>
             (case random_cell r1 of ((spawn_x, spawn_y), r2) \<Rightarrow>
              case randint 0 360 r2 of (hue, r3) \<Rightarrow>
                (let b = fallback_body spawn_x spawn_y
                 in (g\<lparr>occupied := occupied g \<union> set b,
                       players := AList.update player_id (new_player now player_id name b hue (tick g)) (players g)\<rparr>,
                     r3))))"

definition remove_player :: "pystr \<Rightarrow> game \<Rightarrow> game" where
  "remove_player player_id g =
     (case map_of (players g) player_id of
        None \<Rightarrow> g
      | Some p \<Rightarrow>
          g\<lparr>occupied := occupied g - set (body p),
            players := AList.delete player_id (players g),
            death_reasons := (death_reasons g)(player_id := None)\<rparr>)"

subsection \<open>Messages of a connection\<close>

text \<open>
  What \<^verbatim>\<open>json.loads\<close> returns. A float is represented by the number it denotes
  (\<open>JNonFinite\<close> stands for \<^verbatim>\<open>NaN\<close> and the infinities), which is all that the comparisons
  of the handler look at; an object is its dictionary, with distinct keys.
\<close>

datatype json =
    JNull
  | JBool bool
  | JInt int
  | JFloat real
  | JNonFinite
  | JStr pystr
  | JList "json list"
  | JObj "(pystr \<times> json) list"

text \<open>
  Python's \<^verbatim>\<open>v == n\<close> for a parsed value \<open>v\<close> and an integer \<open>n\<close>: a boolean is the
  integer 0 or 1, a float is compared by value.
\<close>

fun py_eq_int :: "json \<Rightarrow> int \<Rightarrow> bool" where
  "py_eq_int (JInt i) n = (i = n)"
| "py_eq_int (JBool b) n = ((if b then 1 else 0) = n)"
| "py_eq_int (JFloat x) n = (x = of_int n)"
| "py_eq_int _ n = False"

text \<open>\<^verbatim>\<open>dx in (-1, 0, 1)\<close>\<close>

definition in_unit :: "json \<Rightarrow> bool" where
  "in_unit v = (py_eq_int v (- 1) \<or> py_eq_int v 0 \<or> py_eq_int v 1)"

text \<open>The integer that a value accepted by \<open>in_unit\<close> is equal to.\<close>

definition unit_value :: "json \<Rightarrow> int" where
  "unit_value v = (if py_eq_int v (- 1) then - 1 else if py_eq_int v 1 then 1 else 0)"

definition set_player :: "pystr \<Rightarrow> player \<Rightarrow> game \<Rightarrow> game" where
  "set_player player_id p g = g\<lparr>players := AList.update player_id p (players g)\<rparr>"

text \<open>The branch \<^verbatim>\<open>msg_type == "input"\<close>; \<open>direction\<close> is \<^verbatim>\<open>message.get("dir")\<close>.\<close>

definition handle_input :: "real \<Rightarrow> pystr \<Rightarrow> json option \<Rightarrow> game \<Rightarrow> game" where
  "handle_input now player_id direction g =
     (case direction of
        Some (JList [dx, dy]) \<Rightarrow>
          (case map_of (players g) player_id of
             None \<Rightarrow> g
           | Some p \<Rightarrow>
               if alive p
               then (if in_unit dx \<and> in_unit dy \<and> (\<not> py_eq_int dx 0 \<or> \<not> py_eq_int dy 0)
                     then set_player player_id
                            (p\<lparr>pending_dir := (unit_value dx, unit_value dy), last_input_time := now\<rparr>) g
                     else g)
               else g)
      | _ \<Rightarrow> g)"

text \<open>
  The branch \<^verbatim>\<open>msg_type == "respawn"\<close>; \<open>conn_name\<close> is the local variable \<^verbatim>\<open>display_name\<close> of
  \<^verbatim>\<open>websocket_endpoint\<close>, which the endpoint sets to the player identity when the
  connection opens and never assigns again.
\<close>

definition handle_respawn :: "real \<Rightarrow> pystr \<Rightarrow> pystr \<Rightarrow> game \<Rightarrow> rng \<Rightarrow> game \<times> rng" where
  "handle_respawn now player_id conn_name g r =
     (case map_of (players g) player_id of
        None \<Rightarrow> (g, r)
      | Some p \<Rightarrow>
          if \<not> alive p
          then add_player now player_id (Some conn_name) (remove_player player_id g) r
          else (g, r))"

text \<open>
  The characters that \<^verbatim>\<open>str.strip()\<close> removes: the code points for which
  \<^verbatim>\<open>str.isspace\<close> holds.
\<close>

definition py_isspace :: "nat \<Rightarrow> bool" where
  "py_isspace c =
     ((9 \<le> c \<and> c \<le> 13) \<or> (28 \<le> c \<and> c \<le> 32) \<or> c = 133 \<or> c = 160 \<or> c = 5760
      \<or> (8192 \<le> c \<and> c \<le> 8202) \<or> c = 8232 \<or> c = 8233 \<or> c = 8239 \<or> c = 8287 \<or> c = 12288)"

definition strip :: "pystr \<Rightarrow> pystr" where
  "strip s = rev (dropWhile py_isspace (rev (dropWhile py_isspace s)))"

datatype outbound = Notification pystr

text \<open>
  The branch \<^verbatim>\<open>msg_type == "rename"\<close>; \<open>new_name\<close> is \<^verbatim>\<open>message.get("name")\<close>. The
  second component is what is sent back on the connection.
\<close>

definition handle_rename :: "pystr \<Rightarrow> json option \<Rightarrow> game \<Rightarrow> game \<times> outbound list" where
  "handle_rename player_id new_name g =
     (case new_name of
        Some (JStr s) \<Rightarrow>
          (case map_of (players g) player_id of
             None \<Rightarrow> (g, [])
           | Some p \<Rightarrow>
               if s \<noteq> [] \<and> length (strip s) > 0
               then (let n = take 20 (strip s)
                     in (set_player player_id (p\<lparr>display_name := n\<rparr>) g,
                         [Notification (ustr ''Name changed to '' @ n)]))
               else (g, []))
      | _ \<Rightarrow> (g, []))"

text \<open>
  One turn of the receive loop on a parsed message. \<^verbatim>\<open>message.get\<close> exists only on a
  dictionary: any other parsed value raises \<^verbatim>\<open>AttributeError\<close>.
\<close>

definition on_message :: "real \<Rightarrow> pystr \<Rightarrow> pystr \<Rightarrow> json \<Rightarrow> game \<Rightarrow> rng \<Rightarrow> py_error + (game \<times> rng \<times> outbound list)" where
  "on_message now player_id conn_name message g r =
     (case message of
        JObj obj \<Rightarrow>
          (let msg_type = map_of obj (ustr ''type'')
           in if msg_type = Some (JStr (ustr ''input''))
              then Inr (handle_input now player_id (map_of obj (ustr ''dir'')) g, r, [])
              else if msg_type = Some (JStr (ustr ''respawn''))
              then (case handle_respawn now player_id conn_name g r of (g', r') \<Rightarrow> Inr (g', r', []))
              else if msg_type = Some (JStr (ustr ''rename''))
              then (case handle_rename player_id (map_of obj (ustr ''name'')) g of (g', out) \<Rightarrow> Inr (g', r, out))
              else Inr (g, r, []))
      | _ \<Rightarrow> Inl AttributeError)"

subsection \<open>Auxiliary notions for the proofs\<close>

text \<open>What the first pass makes of one entry of \<^verbatim>\<open>players\<close>, and the entry of \<^verbatim>\<open>new_heads\<close> it adds.\<close>

definition committed :: "(pystr \<times> player) \<Rightarrow> (pystr \<times> player)" where
  "committed kp = (fst kp, if alive (snd kp) then commit_dir (snd kp) else snd kp)"

definition head_entry :: "(pystr \<times> player) \<Rightarrow> (pystr \<times> cell) list" where
  "head_entry kp =
     (if alive (snd kp)
      then (case project_head (commit_dir (snd kp)) of Inr h \<Rightarrow> [(fst kp, h)] | Inl e \<Rightarrow> [])
      else [])"

subsection \<open>Concrete states\<close>

definition snake :: "pystr \<Rightarrow> cell list \<Rightarrow> int \<times> int \<Rightarrow> player" where
  "snake k b d =
     \<lparr>pid = k, display_name = k, body = b, dir = d, pending_dir = d, alive = True, score = 0,
      food_collected = 0, color = ''hsl(0, 100%, 50%)'', last_input_time = 0, spawn_tick = 0\<rparr>"

definition edge_snake :: player where
  "edge_snake = snake (ustr ''a'') [(39, 7), (38, 7), (37, 7)] (1, 0)"

subsection \<open>Reading a direction, as a specification of the input message\<close>

text \<open>
  The number that a parsed value stands for in Python's comparisons: an integer, a float,
  or a boolean (\<^verbatim>\<open>True == 1\<close>, \<^verbatim>\<open>False == 0\<close>). Anything else is not a number.
\<close>

definition json_number :: "json \<Rightarrow> real option" where
  "json_number v = (case v of JInt i \<Rightarrow> Some (of_int i) | JBool b \<Rightarrow> Some (if b then 1 else 0) | JFloat x \<Rightarrow> Some x | _ \<Rightarrow> None)"

definition unit_direction :: "json option \<Rightarrow> (int \<times> int) option" where
  "unit_direction d =
     (case d of
        Some (JList [dx, dy]) \<Rightarrow>
          (case json_number dx of
             None \<Rightarrow> None
           | Some vx \<Rightarrow>
               (case json_number dy of
                  None \<Rightarrow> None
                | Some vy \<Rightarrow>
                    if (vx = - 1 \<or> vx = 0 \<or> vx = 1) \<and> (vy = - 1 \<or> vy = 0 \<or> vy = 1) \<and> (vx \<noteq> 0 \<or> vy \<noteq> 0)
                    then Some (\<lfloor>vx\<rfloor>, \<lfloor>vy\<rfloor>) else None))
      | _ \<Rightarrow> None)"

text \<open>
  The reading of the specification's table: a 2-element array of JSON integers in
  \<open>{-1, 0, 1}\<close>, not both zero.
\<close>

fun is_unit_int :: "json \<Rightarrow> bool" where
  "is_unit_int (JInt i) = (i = - 1 \<or> i = 0 \<or> i = 1)"
| "is_unit_int _ = False"

definition int_unit_dir :: "json option \<Rightarrow> bool" where
  "int_unit_dir d =
     (case d of
        Some (JList [dx, dy]) \<Rightarrow> is_unit_int dx \<and> is_unit_int dy \<and> (dx \<noteq> JInt 0 \<or> dy \<noteq> JInt 0)
      | _ \<Rightarrow> False)"

definition input_msg :: "json \<Rightarrow> json" where
  "input_msg d = JObj [(ustr ''type'', JStr (ustr ''input'')), (ustr ''dir'', d)]"

definition move_msg :: json where
  "move_msg = input_msg (JList [JInt 1, JInt 0])"

definition rename_msg :: "pystr \<Rightarrow> json" where
  "rename_msg s = JObj [(ustr ''type'', JStr (ustr ''rename'')), (ustr ''name'', JStr s)]"

definition respawn_msg :: json where
  "respawn_msg = JObj [(ustr ''type'', JStr (ustr ''respawn''))]"

definition lobby :: game where
  "lobby = \<lparr>players = [(ustr ''a'', snake (ustr ''a'') [(5, 5), (4, 5), (3, 5)] (0, 1))],
            food = [(1, 1), (2, 2), (3, 3), (7, 7), (9, 9)],
            occupied = {(5, 5), (4, 5), (3, 5), (1, 1), (2, 2), (3, 3), (7, 7), (9, 9)},
            tick = 7, death_reasons = Map.empty\<rparr>"

definition named_corpse :: game where
  "named_corpse =
     \<lparr>players = [(ustr ''p1'', (snake (ustr ''p1'') [(10, 10), (9, 10), (8, 10)] (1, 0))\<lparr>alive := False\<rparr>)],
      food = [(1, 1), (2, 2), (3, 3), (7, 7), (9, 9)],
      occupied = {(1, 1), (2, 2), (3, 3), (7, 7), (9, 9)},
      tick = 7, death_reasons = [ustr ''p1'' \<mapsto> ''other'']\<rparr>"

definition renamed_corpse :: game where
  "renamed_corpse =
     named_corpse\<lparr>players := [(ustr ''p1'', (snake (ustr ''p1'') [(10, 10), (9, 10), (8, 10)] (1, 0))\<lparr>alive := False, display_name := ustr ''Bob''\<rparr>)]\<rparr>"

subsection \<open>Occupancy and the grid\<close>

text \<open>
  The occupancy that the specification derives from the state: the body cells of the
  alive players and the food cells.
\<close>

definition occupancy :: "game \<Rightarrow> cell set" where
  "occupancy g = build_temp_occupied (players g) (food g)"

text \<open>The cells of the board.\<close>

definition on_grid :: "cell \<Rightarrow> bool" where
  "on_grid c = (0 \<le> fst c \<and> fst c < WIDTH \<and> 0 \<le> snd c \<and> snd c < HEIGHT)"

definition corpse_on_food :: game where
  "corpse_on_food =
     \<lparr>players = [(ustr ''d'', (snake (ustr ''d'') [(5, 5), (4, 5), (3, 5)] (1, 0))\<lparr>alive := False\<rparr>)],
      food = [(1, 1), (2, 2), (3, 3), (7, 7), (4, 5)],
      occupied = {(1, 1), (2, 2), (3, 3), (7, 7), (4, 5)},
      tick = 7, death_reasons = [ustr ''d'' \<mapsto> ''other'']\<rparr>"

definition loop_on_food :: game where
  "loop_on_food =
     \<lparr>players = [(ustr ''a'', snake (ustr ''a'') [(5, 5), (5, 6), (6, 6), (6, 5)] (1, 0))],
      food = [(6, 5), (1, 1), (2, 2), (3, 3), (7, 7)],
      occupied = {(5, 5), (5, 6), (6, 6), (6, 5), (1, 1), (2, 2), (3, 3), (7, 7)},
      tick = 7, death_reasons = Map.empty\<rparr>"

text \<open>
  The other players whose projected head is \<open>h\<close>, and what the fourth pass makes of one
  entry of \<^verbatim>\<open>players\<close>.
\<close>

definition colliders :: "pystr \<Rightarrow> cell \<Rightarrow> (pystr \<times> cell) list \<Rightarrow> pystr set" where
  "colliders k h nhs = {other_id. other_id \<noteq> k \<and> (other_id, h) \<in> set nhs}"

definition moved :: "(pystr \<times> cell) list \<Rightarrow> pystr list \<Rightarrow> pystr set \<Rightarrow> pystr \<Rightarrow> player \<Rightarrow> player \<Rightarrow> bool" where
  "moved nhs grow dead k p p' =
     (if \<not> alive p then p' = p
      else if k \<in> dead then p' = p\<lparr>alive := False\<rparr>
      else (\<exists>h. map_of nhs k = Some h \<and> p' = move_player h (k \<in> set grow) p))"

definition head_on :: game where
  "head_on =
     \<lparr>players = [(ustr ''a'', snake (ustr ''a'') [(5, 5), (4, 5), (3, 5)] (1, 0)),
                 (ustr ''b'', snake (ustr ''b'') [(7, 5), (8, 5), (9, 5)] (- 1, 0))],
      food = [(1, 1), (2, 2), (3, 3), (7, 7), (9, 9)],
      occupied = {(5, 5), (4, 5), (3, 5), (7, 5), (8, 5), (9, 5), (1, 1), (2, 2), (3, 3), (7, 7), (9, 9)},
      tick = 7, death_reasons = Map.empty\<rparr>"


text \<open>
  The bodies of distinct alive players share no cell; no food lies on the body of an alive
  player.
\<close>

definition bodies_disjoint :: "(pystr \<times> player) list \<Rightarrow> bool" where
  "bodies_disjoint ps =
     (\<forall>(k1, p1) \<in> set ps. \<forall>(k2, p2) \<in> set ps.
        k1 \<noteq> k2 \<and> alive p1 \<and> alive p2 \<longrightarrow> set (body p1) \<inter> set (body p2) = {})"

definition food_clear :: "game \<Rightarrow> bool" where
  "food_clear g = (\<forall>(k, p) \<in> set (players g). alive p \<longrightarrow> set (body p) \<inter> set (food g) = {})"



definition two_snakes :: game where
  "two_snakes =
     \<lparr>players = [(ustr ''a'', snake (ustr ''a'') [(5, 5), (4, 5), (3, 5)] (1, 0)),
                 (ustr ''b'', snake (ustr ''b'') [(7, 9), (8, 9), (9, 9)] (- 1, 0))],
      food = [(6, 5), (1, 1), (2, 2), (3, 3), (7, 7)],
      occupied = {(5, 5), (4, 5), (3, 5), (7, 9), (8, 9), (9, 9), (6, 5), (1, 1), (2, 2), (3, 3), (7, 7)},
      tick = 7, death_reasons = Map.empty\<rparr>"

definition crowded :: game where
  "crowded =
     \<lparr>players = [(ustr ''c'', snake (ustr ''c'') [(39, 29), (39, 0), (39, 1)] (0, - 1))],
      food = [(4, 2), (1, 1), (2, 2), (3, 3), (7, 7)],
      occupied = {(39, 29), (39, 0), (39, 1), (4, 2), (1, 1), (2, 2), (3, 3), (7, 7)},
      tick = 7, death_reasons = Map.empty\<rparr>"

definition food_under_body :: game where
  "food_under_body =
     \<lparr>players = [(ustr ''a'', snake (ustr ''a'') [(5, 5), (4, 5), (3, 5)] (1, 0)),
                 (ustr ''b'', snake (ustr ''b'') [(6, 4), (6, 5), (6, 6)] (0, - 1))],
      food = [(6, 5), (1, 1), (2, 2), (3, 3), (7, 7)],
      occupied = {(5, 5), (4, 5), (3, 5), (6, 4), (6, 5), (6, 6), (1, 1), (2, 2), (3, 3), (7, 7)},
      tick = 7, death_reasons = Map.empty\<rparr>"

section \<open>Verification\<close>

subsection \<open>The first pass\<close>

lemma cons_res_Inr: "cons_res x r = Inr (ys, a) \<longleftrightarrow> (\<exists>xs. r = Inr (xs, a) \<and> ys = x # xs)"
  by (auto simp: cons_res_def split: sum.splits)

lemma first_pass_Cons_dead:
  "\<not> alive p \<Longrightarrow> first_pass ((k, p) # ps) = Inr (ps', nhs) \<longleftrightarrow>
     (\<exists>ps1. first_pass ps = Inr (ps1, nhs) \<and> ps' = (k, p) # ps1)"
  by (auto simp: cons_res_Inr)

lemma first_pass_Cons_alive:
  "alive p \<Longrightarrow> first_pass ((k, p) # ps) = Inr (ps', nhs) \<longleftrightarrow>
     (\<exists>h ps1 nh1. project_head (commit_dir p) = Inr h \<and> first_pass ps = Inr (ps1, nh1) \<and>
        ps' = (k, commit_dir p) # ps1 \<and> nhs = (k, h) # nh1)"
  by (auto split: sum.splits)

lemma first_pass_shape:
  "first_pass ps = Inr (ps', nhs) \<Longrightarrow>
     ps' = map committed ps \<and> nhs = concat (map head_entry ps) \<and>
     (\<forall>kp \<in> set ps. alive (snd kp) \<longrightarrow> (\<exists>h. project_head (commit_dir (snd kp)) = Inr h))"
proof (induction ps arbitrary: ps' nhs)
  case Nil
  then show ?case by simp
next
  case (Cons kp ps)
  obtain k p where kp: "kp = (k, p)" by (cases kp)
  show ?case
  proof (cases "alive p")
    case False
    from Cons.prems[unfolded kp first_pass_Cons_dead[OF False]]
    obtain ps1 where r: "first_pass ps = Inr (ps1, nhs)" and e: "ps' = (k, p) # ps1"
      by blast
    from Cons.IH[OF r] e kp False show ?thesis
      by (simp add: committed_def head_entry_def)
  next
    case True
    from Cons.prems[unfolded kp first_pass_Cons_alive[OF True]]
    obtain h ps1 nh1 where h: "project_head (commit_dir p) = Inr h"
      and r: "first_pass ps = Inr (ps1, nh1)" and e: "ps' = (k, commit_dir p) # ps1" "nhs = (k, h) # nh1"
      by blast
    from Cons.IH[OF r] e kp True h show ?thesis
      by (simp add: committed_def head_entry_def)
  qed
qed

lemma first_pass_players:
  "first_pass ps = Inr (ps', nhs) \<Longrightarrow> ps' = map committed ps"
  by (simp add: first_pass_shape)

lemma first_pass_heads:
  assumes "first_pass ps = Inr (ps', nhs)"
  shows "(k, h) \<in> set nhs \<longleftrightarrow> (\<exists>p. (k, p) \<in> set ps \<and> alive p \<and> project_head (commit_dir p) = Inr h)"
proof -
  have nhs: "nhs = concat (map head_entry ps)" using first_pass_shape[OF assms] by simp
  show ?thesis
  proof
    assume "(k, h) \<in> set nhs"
    then obtain k' p' where "(k', p') \<in> set ps" "(k, h) \<in> set (head_entry (k', p'))"
      by (auto simp: nhs)
    then show "\<exists>p. (k, p) \<in> set ps \<and> alive p \<and> project_head (commit_dir p) = Inr h"
      by (cases "alive p'"; cases "project_head (commit_dir p')") (auto simp: head_entry_def)
  next
    assume "\<exists>p. (k, p) \<in> set ps \<and> alive p \<and> project_head (commit_dir p) = Inr h"
    then obtain p where p: "(k, p) \<in> set ps" "alive p" "project_head (commit_dir p) = Inr h"
      by blast
    then have "(k, h) \<in> set (head_entry (k, p))" by (simp add: head_entry_def)
    with p(1) show "(k, h) \<in> set nhs" unfolding nhs by force
  qed
qed

lemma first_pass_keys:
  assumes "first_pass ps = Inr (ps', nhs)"
  shows "set (map fst nhs) \<subseteq> set (map fst ps)"
  using first_pass_heads[OF assms] by force

lemma first_pass_distinct:
  "first_pass ps = Inr (ps', nhs) \<Longrightarrow> distinct (map fst ps) \<Longrightarrow> distinct (map fst nhs)"
proof (induction ps arbitrary: ps' nhs)
  case Nil
  then show ?case by simp
next
  case (Cons kp ps)
  obtain k p where kp: "kp = (k, p)" by (cases kp)
  show ?case
  proof (cases "alive p")
    case False
    with Cons kp show ?thesis by (auto simp: cons_res_Inr)
  next
    case True
    with Cons.prems kp obtain h ps1 nh1 where
      r: "first_pass ps = Inr (ps1, nh1)" and n: "nhs = (k, h) # nh1"
      by (auto split: sum.splits)
    from first_pass_keys[OF r] Cons.prems(2) kp have "k \<notin> set (map fst nh1)" by auto
    with Cons.IH[OF r] Cons.prems(2) n show ?thesis by simp
  qed
qed

lemma first_pass_lookup:
  assumes "first_pass ps = Inr (ps', nhs)" "distinct (map fst ps)"
  shows "map_of nhs k = Some h \<longleftrightarrow>
         (\<exists>p. map_of ps k = Some p \<and> alive p \<and> project_head (commit_dir p) = Inr h)"
proof -
  have "map_of nhs k = Some h \<longleftrightarrow> (k, h) \<in> set nhs"
    using first_pass_distinct[OF assms] by (auto dest: map_of_SomeD)
  also have "\<dots> \<longleftrightarrow> (\<exists>p. (k, p) \<in> set ps \<and> alive p \<and> project_head (commit_dir p) = Inr h)"
    by (rule first_pass_heads[OF assms(1)])
  also have "\<dots> \<longleftrightarrow> (\<exists>p. map_of ps k = Some p \<and> alive p \<and> project_head (commit_dir p) = Inr h)"
    using assms(2) by (auto dest: map_of_SomeD)
  finally show ?thesis .
qed

lemma first_pass_alive_body:
  "first_pass ps = Inr (ps', nhs) \<Longrightarrow> (k, p) \<in> set ps \<Longrightarrow> alive p \<Longrightarrow>
   \<exists>h. project_head (commit_dir p) = Inr h"
  using first_pass_shape by fastforce

lemma commit_dir_dir:
  "dir (commit_dir p) = (if pending_dir p = (- fst (dir p), - snd (dir p)) then dir p else pending_dir p)"
  by (auto simp: commit_dir_def split: prod.splits)

lemma commit_dir_fields [simp]:
  "body (commit_dir p) = body p" "alive (commit_dir p) = alive p" "score (commit_dir p) = score p"
  "pending_dir (commit_dir p) = pending_dir p" "food_collected (commit_dir p) = food_collected p"
  "display_name (commit_dir p) = display_name p"
  by (auto simp: commit_dir_def split: prod.splits)

lemma project_head_Inr:
  "project_head p = Inr h \<longleftrightarrow>
   (\<exists>hx hy rest. body p = (hx, hy) # rest \<and> h = ((hx + fst (dir p)) mod WIDTH, (hy + snd (dir p)) mod HEIGHT))"
  by (auto simp: project_head_def clamp_pos_def split: list.splits prod.splits)

lemma map_of_committed:
  "map_of (map committed ps) k = map_option (\<lambda>p. if alive p then commit_dir p else p) (map_of ps k)"
  by (induction ps) (auto simp: committed_def)

text \<open>
  C7. For every alive player the first pass commits the pending direction unless it is the
  exact opposite of the current one, and projects the new head at
  \<open>((head_x + dx) mod WIDTH, (head_y + dy) mod HEIGHT)\<close>; a head at \<open>x = WIDTH - 1\<close>
  moving with direction \<open>(1, 0)\<close> is projected at \<open>x = 0\<close> with the same \<open>y\<close>.
\<close>

theorem direction_commit_and_projection:
  assumes "distinct (map fst ps)" and "map_of ps k = Some p" and "alive p"
    and "first_pass ps = Inr (ps', new_heads)"
  shows "\<exists>p' hx hy rest.
           map_of ps' k = Some p' \<and>
           dir p' = (if pending_dir p = (- fst (dir p), - snd (dir p)) then dir p else pending_dir p) \<and>
           body p = (hx, hy) # rest \<and>
           map_of new_heads k = Some ((hx + fst (dir p')) mod WIDTH, (hy + snd (dir p')) mod HEIGHT) \<and>
           (hx = WIDTH - 1 \<and> dir p' = (1, 0) \<and> 0 \<le> hy \<and> hy < HEIGHT \<longrightarrow> map_of new_heads k = Some (0, hy))"
proof -
  from assms(2) have mem: "(k, p) \<in> set ps" by (rule map_of_SomeD)
  from first_pass_alive_body[OF assms(4) mem assms(3)]
  obtain h where h: "project_head (commit_dir p) = Inr h" by blast
  then obtain hx hy rest where b: "body p = (hx, hy) # rest"
    and hh: "h = ((hx + fst (dir (commit_dir p))) mod WIDTH, (hy + snd (dir (commit_dir p))) mod HEIGHT)"
    by (auto simp: project_head_Inr)
  have l: "map_of new_heads k = Some h"
    using first_pass_lookup[OF assms(4) assms(1)] assms(2,3) h by blast
  have p': "map_of ps' k = Some (commit_dir p)"
    using first_pass_players[OF assms(4)] assms(2,3) by (simp add: map_of_committed)
  have wrap: "hx = WIDTH - 1 \<and> dir (commit_dir p) = (1, 0) \<and> 0 \<le> hy \<and> hy < HEIGHT \<longrightarrow> h = (0, hy)"
    by (auto simp: hh WIDTH_def HEIGHT_def)
  show ?thesis
    using p' b l hh wrap by (auto simp: commit_dir_dir)
qed


theorem direction_commit_and_projection_witness:
  "\<exists>p' hx hy rest.
      map_of [(ustr ''a'', edge_snake)] (ustr ''a'') = Some p' \<and>
      dir p' = (if pending_dir edge_snake = (- fst (dir edge_snake), - snd (dir edge_snake))
                then dir edge_snake else pending_dir edge_snake) \<and>
      body edge_snake = (hx, hy) # rest \<and>
      map_of [(ustr ''a'', (0::int, 7::int))] (ustr ''a'') = Some ((hx + fst (dir p')) mod WIDTH, (hy + snd (dir p')) mod HEIGHT) \<and>
      (hx = WIDTH - 1 \<and> dir p' = (1, 0) \<and> 0 \<le> hy \<and> hy < HEIGHT \<longrightarrow>
         map_of [(ustr ''a'', (0::int, 7::int))] (ustr ''a'') = Some (0, hy))"
proof -
  have h: "first_pass [(ustr ''a'', edge_snake)] = Inr ([(ustr ''a'', edge_snake)], [(ustr ''a'', (0::int, 7::int))])"
    by (simp add: edge_snake_def snake_def commit_dir_def project_head_def clamp_pos_def WIDTH_def HEIGHT_def)
  have d: "distinct (map fst [(ustr ''a'', edge_snake)])"
    and m: "map_of [(ustr ''a'', edge_snake)] (ustr ''a'') = Some edge_snake"
    and a: "alive edge_snake"
    by (simp_all add: edge_snake_def snake_def)
  show ?thesis
    using direction_commit_and_projection[OF d m a h] .
qed

subsection \<open>Messages\<close>

lemma msg_type_distinct:
  "ustr ''input'' \<noteq> ustr ''respawn''" "ustr ''input'' \<noteq> ustr ''rename''"
  "ustr ''respawn'' \<noteq> ustr ''rename''"
  "ustr ''respawn'' \<noteq> ustr ''input''" "ustr ''rename'' \<noteq> ustr ''input''"
  "ustr ''rename'' \<noteq> ustr ''respawn''"
  by (simp_all add: ustr_def)

lemma on_message_rename:
  assumes "map_of m (ustr ''type'') = Some (JStr (ustr ''rename''))"
  shows "on_message now k cn (JObj m) g r =
           Inr (fst (handle_rename k (map_of m (ustr ''name'')) g), r,
                snd (handle_rename k (map_of m (ustr ''name'')) g))"
  using assms by (simp add: on_message_def msg_type_distinct split: prod.splits)

lemma handle_rename_accept:
  assumes "map_of (players g) k = Some p" "strip s \<noteq> []"
  shows "handle_rename k (Some (JStr s)) g =
           (g\<lparr>players := AList.update k (p\<lparr>display_name := take 20 (strip s)\<rparr>) (players g)\<rparr>,
            [Notification (ustr ''Name changed to '' @ take 20 (strip s))])"
proof -
  from assms(2) have "s \<noteq> []" by (auto simp: strip_def)
  with assms show ?thesis by (simp add: handle_rename_def set_player_def Let_def)
qed

text \<open>
  C10. Rename is idempotent: for an existing player and a name whose trimmed form is not
  empty, handling the same rename message a second time returns the same state (and sends
  the same notification) as the first time. The display name becomes the trimmed name cut
  to 20 characters, and nothing else in the game state changes: no other player, no key
  of the dictionary, no other field.
\<close>

theorem rename_idempotent:
  assumes "map_of (players g) k = Some p" and "strip s \<noteq> []"
    and "map_of m (ustr ''type'') = Some (JStr (ustr ''rename''))"
    and "map_of m (ustr ''name'') = Some (JStr s)"
  shows "\<exists>g1 out.
           on_message now k cn (JObj m) g r = Inr (g1, r, out) \<and>
           on_message now k cn (JObj m) g1 r = Inr (g1, r, out) \<and>
           map_of (players g1) k = Some (p\<lparr>display_name := take 20 (strip s)\<rparr>) \<and>
           map fst (players g1) = map fst (players g) \<and>
           (\<forall>k'. k' \<noteq> k \<longrightarrow> map_of (players g1) k' = map_of (players g) k') \<and>
           g1 = g\<lparr>players := players g1\<rparr>"
proof -
  let ?n = "take 20 (strip s)"
  let ?p1 = "p\<lparr>display_name := ?n\<rparr>"
  let ?g1 = "g\<lparr>players := AList.update k ?p1 (players g)\<rparr>"
  let ?out = "[Notification (ustr ''Name changed to '' @ ?n)]"
  have first: "on_message now k cn (JObj m) g r = Inr (?g1, r, ?out)"
    by (simp add: on_message_rename[OF assms(3)] assms(4) handle_rename_accept[OF assms(1,2)])
  have look: "map_of (players ?g1) k = Some ?p1"
    by (simp add: update_conv')
  have same: "AList.update k (?p1\<lparr>display_name := ?n\<rparr>) (players ?g1) = players ?g1"
    by (rule update_triv) (simp add: update_conv')
  have second: "on_message now k cn (JObj m) ?g1 r = Inr (?g1, r, ?out)"
    using same
    by (simp add: on_message_rename[OF assms(3)] assms(4) handle_rename_accept[OF look assms(2)])
  have keys: "map fst (players ?g1) = map fst (players g)"
    using assms(1) by (auto simp: update_keys dest: map_of_SomeD intro: rev_image_eqI)
  have others: "\<forall>k'. k' \<noteq> k \<longrightarrow> map_of (players ?g1) k' = map_of (players g) k'"
    by (simp add: update_conv')
  show ?thesis
    using first second look keys others by (intro exI[of _ ?g1] exI[of _ ?out]) simp
qed

theorem rename_idempotent_witness:
  "\<exists>g1 out.
      on_message 0 (ustr ''a'') (ustr ''a'') (JObj [(ustr ''type'', JStr (ustr ''rename'')), (ustr ''name'', JStr (ustr ''  Bob ''))]) lobby (\<lambda>n. n, 0) = Inr (g1, (\<lambda>n. n, 0), out) \<and>
      on_message 0 (ustr ''a'') (ustr ''a'') (JObj [(ustr ''type'', JStr (ustr ''rename'')), (ustr ''name'', JStr (ustr ''  Bob ''))]) g1 (\<lambda>n. n, 0) = Inr (g1, (\<lambda>n. n, 0), out) \<and>
      map_of (players g1) (ustr ''a'') = Some ((snake (ustr ''a'') [(5, 5), (4, 5), (3, 5)] (0, 1))\<lparr>display_name := take 20 (strip (ustr ''  Bob ''))\<rparr>) \<and>
      map fst (players g1) = map fst (players lobby) \<and>
      (\<forall>k'. k' \<noteq> ustr ''a'' \<longrightarrow> map_of (players g1) k' = map_of (players lobby) k') \<and>
      g1 = lobby\<lparr>players := players g1\<rparr>"
proof -
  have p: "map_of (players lobby) (ustr ''a'') = Some (snake (ustr ''a'') [(5, 5), (4, 5), (3, 5)] (0, 1))"
    by (simp add: lobby_def)
  have s: "strip (ustr ''  Bob '') \<noteq> []"
    by (simp add: strip_def py_isspace_def ustr_def)
  have t: "map_of [(ustr ''type'', JStr (ustr ''rename'')), (ustr ''name'', JStr (ustr ''  Bob ''))] (ustr ''type'') = Some (JStr (ustr ''rename''))"
    by simp
  have n: "map_of [(ustr ''type'', JStr (ustr ''rename'')), (ustr ''name'', JStr (ustr ''  Bob ''))] (ustr ''name'') = Some (JStr (ustr ''  Bob ''))"
    by (simp add: ustr_def)
  show ?thesis
    using rename_idempotent[OF p s t n, of 0 "ustr ''a''" "(\<lambda>n. n, 0)"] .
qed

lemma in_unit_number:
  "in_unit v \<longleftrightarrow> (\<exists>x. json_number v = Some x \<and> (x = - 1 \<or> x = 0 \<or> x = 1))"
  by (cases v) (auto simp: in_unit_def json_number_def)

lemma zero_number:
  "json_number v = Some x \<Longrightarrow> py_eq_int v 0 \<longleftrightarrow> x = 0"
  by (cases v) (auto simp: json_number_def split: if_splits)

lemma unit_value_number:
  "json_number v = Some x \<Longrightarrow> x = - 1 \<or> x = 0 \<or> x = 1 \<Longrightarrow> unit_value v = \<lfloor>x\<rfloor>"
proof -
  have f: "\<lfloor>- 1 :: real\<rfloor> = - 1" by (simp add: floor_eq_iff)
  show "json_number v = Some x \<Longrightarrow> x = - 1 \<or> x = 0 \<or> x = 1 \<Longrightarrow> unit_value v = \<lfloor>x\<rfloor>"
    by (cases v) (auto simp: json_number_def unit_value_def f split: if_splits)
qed

lemma handle_input_list2:
  "handle_input now k (Some (JList [dx, dy])) g =
     (case map_of (players g) k of
        None \<Rightarrow> g
      | Some p \<Rightarrow>
          if alive p \<and> in_unit dx \<and> in_unit dy \<and> (\<not> py_eq_int dx 0 \<or> \<not> py_eq_int dy 0)
          then set_player k (p\<lparr>pending_dir := (unit_value dx, unit_value dy), last_input_time := now\<rparr>) g
          else g)"
  by (auto simp: handle_input_def split: option.splits)

lemma handle_input_other:
  "(\<And>dx dy. d \<noteq> Some (JList [dx, dy])) \<Longrightarrow> handle_input now k d g = g"
  by (auto simp: handle_input_def split: option.splits json.splits list.splits)

lemma unit_direction_other:
  "(\<And>dx dy. d \<noteq> Some (JList [dx, dy])) \<Longrightarrow> unit_direction d = None"
  by (auto simp: unit_direction_def split: option.splits json.splits list.splits)

lemma handle_input_eq:
  "handle_input now k d g =
     (case map_of (players g) k of
        None \<Rightarrow> g
      | Some p \<Rightarrow>
          (case unit_direction d of
             None \<Rightarrow> g
           | Some v \<Rightarrow> if alive p then set_player k (p\<lparr>pending_dir := v, last_input_time := now\<rparr>) g else g))"
proof (cases "\<exists>dx dy. d = Some (JList [dx, dy])")
  case False
  then show ?thesis
    by (simp add: handle_input_other unit_direction_other split: option.splits)
next
  case True
  then obtain dx dy where d: "d = Some (JList [dx, dy])" by blast
  show ?thesis
  proof (cases "in_unit dx \<and> in_unit dy")
    case False
    then have "unit_direction d = None"
      by (auto simp: d unit_direction_def in_unit_number split: option.splits)
    with False show ?thesis
      by (auto simp: d handle_input_list2 split: option.splits)
  next
    case True
    then obtain vx vy where v: "json_number dx = Some vx" "vx = - 1 \<or> vx = 0 \<or> vx = 1"
      "json_number dy = Some vy" "vy = - 1 \<or> vy = 0 \<or> vy = 1"
      by (auto simp: in_unit_number)
    have z: "py_eq_int dx 0 \<longleftrightarrow> vx = 0" "py_eq_int dy 0 \<longleftrightarrow> vy = 0"
      using v by (simp_all add: zero_number)
    have u: "unit_value dx = \<lfloor>vx\<rfloor>" "unit_value dy = \<lfloor>vy\<rfloor>"
      using v by (simp_all add: unit_value_number)
    have "unit_direction d = (if vx \<noteq> 0 \<or> vy \<noteq> 0 then Some (\<lfloor>vx\<rfloor>, \<lfloor>vy\<rfloor>) else None)"
      using v by (simp add: d unit_direction_def)
    with True z u show ?thesis
      by (simp add: d handle_input_list2 split: option.splits)
  qed
qed

lemma on_message_input:
  assumes "map_of m (ustr ''type'') = Some (JStr (ustr ''input''))"
  shows "on_message now k cn (JObj m) g r = Inr (handle_input now k (map_of m (ustr ''dir'')) g, r, [])"
  using assms by (simp add: on_message_def)

text \<open>
  C8, as amended. An \<^verbatim>\<open>input\<close> message sets the sender's pending direction (and the
  time of its last input) exactly when the sender is an existing alive player and
  \<^verbatim>\<open>dir\<close> is a 2-element array of numbers with values in \<open>{-1, 0, 1}\<close>, not both zero,
  where a number is a JSON integer, a float or a boolean; the pending direction is then
  the pair of these values. Every other \<^verbatim>\<open>input\<close> message leaves the whole game state
  unchanged.
\<close>

theorem input_sets_pending_dir:
  assumes "map_of m (ustr ''type'') = Some (JStr (ustr ''input''))"
  shows "on_message now k cn (JObj m) g r =
           Inr (case map_of (players g) k of
                  None \<Rightarrow> g
                | Some p \<Rightarrow>
                    (case unit_direction (map_of m (ustr ''dir'')) of
                       None \<Rightarrow> g
                     | Some v \<Rightarrow>
                         if alive p
                         then g\<lparr>players := AList.update k (p\<lparr>pending_dir := v, last_input_time := now\<rparr>) (players g)\<rparr>
                         else g),
                r, [])"
  by (simp add: on_message_input[OF assms] handle_input_eq set_player_def split: option.splits)

theorem input_sets_pending_dir_witness:
  "on_message 1 (ustr ''a'') (ustr ''a'') move_msg lobby (\<lambda>n. n, 0) =
     Inr (lobby\<lparr>players := [(ustr ''a'', (snake (ustr ''a'') [(5, 5), (4, 5), (3, 5)] (0, 1))\<lparr>pending_dir := (1, 0), last_input_time := 1\<rparr>)]\<rparr>,
          (\<lambda>n. n, 0), [])"
proof -
  have t: "map_of [(ustr ''type'', JStr (ustr ''input'')), (ustr ''dir'', JList [JInt 1, JInt 0])] (ustr ''type'') = Some (JStr (ustr ''input''))"
    by simp
  show ?thesis
    using input_sets_pending_dir[OF t, of 1 "ustr ''a''" "ustr ''a''" lobby "(\<lambda>n. n, 0)"]
    by (simp add: move_msg_def input_msg_def unit_direction_def json_number_def lobby_def snake_def ustr_def)
qed

text \<open>
  Every message that the specification's table describes is accepted, and the two
  messages of its scenario are rejected.
\<close>

lemma int_unit_dir_accepted:
  "int_unit_dir d \<Longrightarrow> \<exists>v. unit_direction d = Some v"
  apply (auto simp: int_unit_dir_def unit_direction_def json_number_def split: option.splits json.splits list.splits)
  done

lemma unit_direction_rejects:
  "unit_direction (Some (JList [JInt 0, JInt 0])) = None"
  "unit_direction (Some (JList [a, b, c])) = None"
  by (simp_all add: unit_direction_def json_number_def)

text \<open>
  C8 as stated fails: the array \<^verbatim>\<open>[1.0, false]\<close> is not an array of integers, and the
  handler sets the pending direction of the sender to \<open>(1, 0)\<close>.
\<close>

theorem input_bool_float_counterexample:
  "\<not> int_unit_dir (Some (JList [JFloat 1, JBool False])) \<and>
   (case on_message 1 (ustr ''a'') (ustr ''a'') (input_msg (JList [JFloat 1, JBool False])) lobby (\<lambda>n. n, 0) of
      Inr (g', r', out) \<Rightarrow> g' \<noteq> lobby \<and> map_option pending_dir (map_of (players g') (ustr ''a'')) = Some (1, 0)
    | Inl e \<Rightarrow> False) \<and>
   map_option pending_dir (map_of (players lobby) (ustr ''a'')) = Some (0, 1)"
  by (simp add: int_unit_dir_def input_msg_def on_message_def handle_input_def msg_type_distinct
        in_unit_def unit_value_def set_player_def lobby_def snake_def ustr_def)

lemma try_spawn_numeral:
  "try_spawn (numeral n) all_occupied r =
     (case randint (START_LENGTH + 2) (WIDTH - START_LENGTH - 3) r of (spawn_x, r1) \<Rightarrow>
      case randint 2 (HEIGHT - 3) r1 of (spawn_y, r2) \<Rightarrow>
        (case try_body spawn_x spawn_y all_occupied of
           Some b \<Rightarrow> (Some b, r2)
         | None \<Rightarrow> try_spawn (pred_numeral n) all_occupied r2))"
  by (simp add: numeral_eq_Suc)

lemma try_random_numeral:
  "try_random (numeral n) occ r =
     (case random_cell r of (c, r') \<Rightarrow>
        if c \<notin> occ then (Some c, r') else try_random (pred_numeral n) occ r')"
  by (simp add: numeral_eq_Suc)

lemma rename_then:
  "on_message 0 (ustr ''p1'') (ustr ''p1'') (rename_msg (ustr ''Bob'')) named_corpse (\<lambda>n. n, 0)
     = Inr (renamed_corpse, (\<lambda>n. n, 0), [Notification (ustr ''Name changed to Bob'')])"
  by (simp add: on_message_def rename_msg_def msg_type_distinct handle_rename_def strip_def py_isspace_def
        named_corpse_def renamed_corpse_def set_player_def snake_def ustr_def Let_def)

lemma respawn_rejected:
  "map_of (players g) k = None \<Longrightarrow> handle_respawn now k cn g r = (g, r)"
  "map_of (players g) k = Some p \<Longrightarrow> alive p \<Longrightarrow> handle_respawn now k cn g r = (g, r)"
  by (simp_all add: handle_respawn_def)

text \<open>
  C9 at a failing input. Player \<^verbatim>\<open>p1\<close> is dead and has renamed itself to \<^verbatim>\<open>Bob\<close> on its
  connection; its \<^verbatim>\<open>respawn\<close> message re-adds it under the display name \<^verbatim>\<open>p1\<close>.
\<close>

theorem respawn_forgets_rename:
  "on_message 0 (ustr ''p1'') (ustr ''p1'') (rename_msg (ustr ''Bob'')) named_corpse (\<lambda>n. n, 0)
     = Inr (renamed_corpse, (\<lambda>n. n, 0), [Notification (ustr ''Name changed to Bob'')]) \<and>
   map_option display_name (map_of (players renamed_corpse) (ustr ''p1'')) = Some (ustr ''Bob'') \<and>
   (case on_message 0 (ustr ''p1'') (ustr ''p1'') respawn_msg renamed_corpse (\<lambda>n. n, 0) of
      Inr (g', r', out) \<Rightarrow>
        map_option display_name (map_of (players g') (ustr ''p1'')) = Some (ustr ''p1'') \<and>
        map_option alive (map_of (players g') (ustr ''p1'')) = Some True
    | Inl e \<Rightarrow> False)"
proof -
  have a: "map_option display_name (map_of (players renamed_corpse) (ustr ''p1'')) = Some (ustr ''Bob'')"
    by (simp add: renamed_corpse_def named_corpse_def)
  have b: "case on_message 0 (ustr ''p1'') (ustr ''p1'') respawn_msg renamed_corpse (\<lambda>n. n, 0) of
      Inr (g', r', out) \<Rightarrow>
        map_option display_name (map_of (players g') (ustr ''p1'')) = Some (ustr ''p1'') \<and>
        map_option alive (map_of (players g') (ustr ''p1'')) = Some True
    | Inl e \<Rightarrow> False"
    by (simp add: on_message_def respawn_msg_def msg_type_distinct handle_respawn_def remove_player_def
          add_player_def try_spawn_numeral randint_def try_body_def spawn_candidate_def new_player_def
          renamed_corpse_def named_corpse_def snake_def START_LENGTH_def WIDTH_def HEIGHT_def
          upto.simps Let_def)
  show ?thesis using rename_then a b by simp
qed

subsection \<open>Food replenishment\<close>

lemma randint_range:
  "lo \<le> hi \<Longrightarrow> lo \<le> fst (randint lo hi r) \<and> fst (randint lo hi r) \<le> hi"
proof -
  assume le: "lo \<le> hi"
  obtain f i where r: "r = (f, i)" by (cases r)
  have "f i mod nat (hi - lo + 1) < nat (hi - lo + 1)"
    using le by (intro mod_less_divisor) simp
  then have "int (f i mod nat (hi - lo + 1)) \<le> hi - lo" using le by linarith
  then show ?thesis by (simp add: randint_def r)
qed

lemma random_cell_on_grid: "on_grid (fst (random_cell r))"
proof -
  obtain x r1 where x: "randint 0 (WIDTH - 1) r = (x, r1)" by (cases "randint 0 (WIDTH - 1) r")
  obtain y r2 where y: "randint 0 (HEIGHT - 1) r1 = (y, r2)" by (cases "randint 0 (HEIGHT - 1) r1")
  from randint_range[of 0 "WIDTH - 1" r] x have "0 \<le> x \<and> x < WIDTH" by (simp add: WIDTH_def)
  moreover from randint_range[of 0 "HEIGHT - 1" r1] y have "0 \<le> y \<and> y < HEIGHT" by (simp add: HEIGHT_def)
  ultimately show ?thesis by (simp add: random_cell_def x y on_grid_def)
qed

lemma try_random_on_grid:
  "try_random n occ r = (Some c, r') \<Longrightarrow> on_grid c"
proof (induction n arbitrary: r)
  case 0
  then show ?case by simp
next
  case (Suc n)
  obtain c1 r1 where c1: "random_cell r = (c1, r1)" by (cases "random_cell r")
  from random_cell_on_grid[of r] c1 have g: "on_grid c1" by simp
  from Suc.prems c1 have "(c1 \<notin> occ \<and> c = c1) \<or> try_random n occ r1 = (Some c, r')"
    by (auto split: if_splits)
  with g Suc.IH show ?case by blast
qed

lemma set_grid_cells: "set grid_cells = {c. on_grid c}"
  by (auto simp: grid_cells_def on_grid_def)

lemma find_empty_position_on_grid: "on_grid (fst (find_empty_position occ r))"
proof -
  obtain o1 r1 where t: "try_random 100 occ r = (o1, r1)" by (cases "try_random 100 occ r")
  show ?thesis
  proof (cases o1)
    case (Some c)
    with t try_random_on_grid[of 100 occ r c r1] show ?thesis
      by (simp add: find_empty_position_def)
  next
    case None
    show ?thesis
    proof (cases "find (\<lambda>c. c \<notin> occ) grid_cells")
      case n: None
      with t None random_cell_on_grid[of r1] show ?thesis
        by (simp add: find_empty_position_def)
    next
      case (Some c)
      then have "c \<in> set grid_cells" by (auto simp: find_Some_iff)
      with t None Some show ?thesis
        by (simp add: find_empty_position_def set_grid_cells)
    qed
  qed
qed

lemma spawn_food_full_grid_aux:
  assumes "spawn_food g r = Some y"
  shows "\<not> ((\<forall>c. on_grid c \<longrightarrow> c \<in> occupied g) \<and> int (length (food g)) < FOOD_COUNT)"
proof (rule spawn_food.raw_induct
    [where P = "\<lambda>g r y. \<not> ((\<forall>c. on_grid c \<longrightarrow> c \<in> occupied g) \<and> int (length (food g)) < FOOD_COUNT)",
     OF _ assms])
  fix sf :: "game \<Rightarrow> rng \<Rightarrow> (game \<times> rng) option" and g r y
  assume ih: "\<And>g r y. sf g r = Some y \<Longrightarrow>
      \<not> ((\<forall>c. on_grid c \<longrightarrow> c \<in> occupied g) \<and> int (length (food g)) < FOOD_COUNT)"
    and body: "(if int (length (food g)) < FOOD_COUNT
      then case find_empty_position (occupied g) r of
           (pos, r') \<Rightarrow>
             if pos \<notin> occupied g
             then sf (g\<lparr>food := food g @ [pos], occupied := insert pos (occupied g)\<rparr>) r'
             else sf g r'
      else Some (g, r)) = Some y"
  show "\<not> ((\<forall>c. on_grid c \<longrightarrow> c \<in> occupied g) \<and> int (length (food g)) < FOOD_COUNT)"
  proof
    assume full: "(\<forall>c. on_grid c \<longrightarrow> c \<in> occupied g) \<and> int (length (food g)) < FOOD_COUNT"
    obtain pos r' where f: "find_empty_position (occupied g) r = (pos, r')"
      by (cases "find_empty_position (occupied g) r")
    from find_empty_position_on_grid[of "occupied g" r] f have "on_grid pos" by simp
    with full have "pos \<in> occupied g" by blast
    with body f full have "sf g r' = Some y" by simp
    from ih[OF this] full show False by blast
  qed
qed

text \<open>
  C3 at a failing input. On a state whose \<^verbatim>\<open>occupied\<close> set is the whole board and whose
  food list is empty (any players, any tick), \<^verbatim>\<open>spawn_food\<close> never returns, whatever the
  random numbers are: \<^verbatim>\<open>find_empty_position\<close> can only return an occupied cell, which
  the loop refuses.
\<close>

theorem spawn_food_full_grid:
  "spawn_food (g\<lparr>food := [], occupied := {c. on_grid c}\<rparr>) r = None"
proof (cases "spawn_food (g\<lparr>food := [], occupied := {c. on_grid c}\<rparr>) r")
  case None
  then show ?thesis .
next
  case (Some y)
  from spawn_food_full_grid_aux[OF Some] show ?thesis by (simp add: FOOD_COUNT_def)
qed

lemma step_full_grid:
  assumes "step_resolve g = Inr g1" and "\<forall>c. on_grid c \<longrightarrow> c \<in> occupied g1"
    and "int (length (food g1)) < FOOD_COUNT"
  shows "step g r = None"
proof (cases "spawn_food g1 r")
  case None
  with assms(1) show ?thesis by (simp add: step_def)
next
  case (Some y)
  from spawn_food_full_grid_aux[OF Some] assms(2,3) show ?thesis by blast
qed

subsection \<open>Occupancy after a player leaves\<close>

text \<open>
  C5 at a failing input. Player \<^verbatim>\<open>d\<close> is dead, so its cells were released when it
  died, and food has since been placed on one of them, \<open>(4, 5)\<close>; \<^verbatim>\<open>occupied\<close> is exactly
  the occupancy. \<^verbatim>\<open>remove_player\<close> takes every cell of the dead body out of
  \<^verbatim>\<open>occupied\<close>, the food cell with them.
\<close>

theorem remove_player_releases_food_cell:
  "occupied corpse_on_food = occupancy corpse_on_food \<and>
   occupied (remove_player (ustr ''d'') corpse_on_food) = {(1, 1), (2, 2), (3, 3), (7, 7)} \<and>
   occupancy (remove_player (ustr ''d'') corpse_on_food) = {(1, 1), (2, 2), (3, 3), (7, 7), (4, 5)} \<and>
   occupied (remove_player (ustr ''d'') corpse_on_food) \<noteq> occupancy (remove_player (ustr ''d'') corpse_on_food)"
  by (auto simp: corpse_on_food_def occupancy_def build_temp_occupied_def remove_player_def snake_def)

subsection \<open>Growing onto the own tail\<close>

text \<open>
  C4 at a failing input. The head of snake \<^verbatim>\<open>a\<close> is projected onto its own tail cell
  \<open>(6, 5)\<close>, which holds food, so the snake is marked for growth. It does not die: it
  moves, keeps its tail, and scores.
\<close>

theorem growing_onto_own_tail_survives:
  "(case step_resolve loop_on_food of
      Inr g' \<Rightarrow>
        map_of (players g') (ustr ''a'') =
          Some ((snake (ustr ''a'') [(6, 5), (5, 5), (5, 6), (6, 6), (6, 5)] (1, 0))\<lparr>score := 1, food_collected := 1\<rparr>) \<and>
        death_reasons g' (ustr ''a'') = None
    | Inl e \<Rightarrow> False)"
  by (simp add: loop_on_food_def step_resolve_def snake_def commit_dir_def project_head_def clamp_pos_def
        build_temp_occupied_def check_player_def eat_food_def body_check_def move_player_def clean_up_def
        cons_res_def WIDTH_def HEIGHT_def START_LENGTH_def)

subsection \<open>The collision pass\<close>

lemma third_pass_Cons_dead:
  "\<not> alive p \<Longrightarrow> third_pass nhs ((k, p) # ps) a = Inr (ps', a') \<longleftrightarrow>
     (\<exists>ps1. third_pass nhs ps a = Inr (ps1, a') \<and> ps' = (k, p) # ps1)"
  by (auto simp: cons_res_Inr)

lemma third_pass_Cons_alive:
  "alive p \<Longrightarrow> third_pass nhs ((k, p) # ps) a = Inr (ps', a') \<longleftrightarrow>
     (\<exists>h ps1. map_of nhs k = Some h \<and>
        third_pass nhs ps (snd (check_player nhs k h p a)) = Inr (ps1, a') \<and>
        ps' = (k, fst (check_player nhs k h p a)) # ps1)"
  by (auto simp: cons_res_Inr split: option.splits prod.splits)

lemma third_pass_inv:
  assumes "third_pass nhs ps a = Inr (ps', a')" and "I a"
    and "\<And>k p h a. (k, p) \<in> set ps \<Longrightarrow> alive p \<Longrightarrow> map_of nhs k = Some h \<Longrightarrow> I a \<Longrightarrow>
           I (snd (check_player nhs k h p a))"
  shows "I a'"
  using assms
proof (induction ps arbitrary: ps' a)
  case Nil
  then show ?case by simp
next
  case (Cons kp ps)
  obtain k p where kp: "kp = (k, p)" by (cases kp)
  show ?case
  proof (cases "alive p")
    case False
    from Cons.prems(1)[unfolded kp third_pass_Cons_dead[OF False]]
    obtain ps1 where r: "third_pass nhs ps a = Inr (ps1, a')" by blast
    show ?thesis
      by (rule Cons.IH[OF r Cons.prems(2)]) (auto intro: Cons.prems(3))
  next
    case True
    from Cons.prems(1)[unfolded kp third_pass_Cons_alive[OF True]]
    obtain h ps1 where h: "map_of nhs k = Some h"
      and r: "third_pass nhs ps (snd (check_player nhs k h p a)) = Inr (ps1, a')" by blast
    have "I (snd (check_player nhs k h p a))"
      by (rule Cons.prems(3)[OF _ True h Cons.prems(2)]) (simp add: kp)
    then show ?thesis
      by (rule Cons.IH[OF r]) (auto intro: Cons.prems(3))
  qed
qed

lemma third_pass_turn:
  assumes "third_pass nhs ps a = Inr (ps', a')" and "distinct (map fst ps)"
    and "(k, p) \<in> set ps" and "alive p" and "I a"
    and before: "\<And>k' p' h a. (k', p') \<in> set ps \<Longrightarrow> k' \<noteq> k \<Longrightarrow> alive p' \<Longrightarrow> map_of nhs k' = Some h \<Longrightarrow> I a \<Longrightarrow>
           I (snd (check_player nhs k' h p' a))"
    and turn: "\<And>h a. map_of nhs k = Some h \<Longrightarrow> I a \<Longrightarrow> Q (snd (check_player nhs k h p a))"
    and after: "\<And>k' p' h a. (k', p') \<in> set ps \<Longrightarrow> k' \<noteq> k \<Longrightarrow> alive p' \<Longrightarrow> map_of nhs k' = Some h \<Longrightarrow> Q a \<Longrightarrow>
           Q (snd (check_player nhs k' h p' a))"
  shows "Q a'"
  using assms(1-5) before after
proof (induction ps arbitrary: ps' a)
  case Nil
  then show ?case by simp
next
  case (Cons kq ps)
  obtain k1 q where kq: "kq = (k1, q)" by (cases kq)
  have d: "distinct (map fst ps)" and k1: "k1 \<notin> fst ` set ps"
    using Cons.prems(2) kq by auto
  show ?case
  proof (cases "k1 = k")
    case True
    with Cons.prems(3) kq k1 have qp: "q = p" by force
    from Cons.prems(1)[unfolded kq qp True third_pass_Cons_alive[OF Cons.prems(4)]]
    obtain h ps1 where h: "map_of nhs k = Some h"
      and r: "third_pass nhs ps (snd (check_player nhs k h p a)) = Inr (ps1, a')" by blast
    have Q1: "Q (snd (check_player nhs k h p a))"
      by (rule turn[OF h Cons.prems(5)])
    show ?thesis
    proof (rule third_pass_inv[OF r, where I = Q, OF Q1])
      fix k' p' h' b
      assume m: "(k', p') \<in> set ps" and al: "alive p'" and h': "map_of nhs k' = Some h'" and q: "Q b"
      from m k1 True have ne: "k' \<noteq> k" by force
      show "Q (snd (check_player nhs k' h' p' b))"
        by (rule Cons.prems(7)[OF _ ne al h' q]) (simp add: m)
    qed
  next
    case False
    with Cons.prems(3) kq have mem: "(k, p) \<in> set ps" by auto
    show ?thesis
    proof (cases "alive q")
      case dead: False
      from Cons.prems(1)[unfolded kq third_pass_Cons_dead[OF dead]]
      obtain ps1 where r: "third_pass nhs ps a = Inr (ps1, a')" by blast
      show ?thesis
        by (rule Cons.IH[OF r d mem Cons.prems(4) Cons.prems(5)])
           (auto intro: Cons.prems(6) Cons.prems(7))
    next
      case al: True
      from Cons.prems(1)[unfolded kq third_pass_Cons_alive[OF al]]
      obtain h ps1 where h: "map_of nhs k1 = Some h"
        and r: "third_pass nhs ps (snd (check_player nhs k1 h q a)) = Inr (ps1, a')" by blast
      have I1: "I (snd (check_player nhs k1 h q a))"
        by (rule Cons.prems(6)[OF _ False al h Cons.prems(5)]) (simp add: kq)
      show ?thesis
        by (rule Cons.IH[OF r d mem Cons.prems(4) I1])
           (auto intro: Cons.prems(6) Cons.prems(7))
    qed
  qed
qed

lemma colliders_Nil [simp]: "colliders k h [] = {}"
  by (simp add: colliders_def)

lemma colliders_Cons:
  "colliders k h ((ok, oh) # rest) =
     (if ok \<noteq> k \<and> oh = h then insert ok (colliders k h rest) else colliders k h rest)"
  by (auto simp: colliders_def)

lemma head_to_head_food [simp]: "r_food (head_to_head k h nhs a) = r_food a"
  by (induction k h nhs a rule: head_to_head.induct) auto

lemma head_to_head_temp [simp]: "temp_occupied (head_to_head k h nhs a) = temp_occupied a"
  by (induction k h nhs a rule: head_to_head.induct) auto

lemma head_to_head_grow [simp]: "snakes_to_grow (head_to_head k h nhs a) = snakes_to_grow a"
  by (induction k h nhs a rule: head_to_head.induct) auto

lemma head_to_head_dead:
  "dead_snakes (head_to_head k h nhs a) =
     dead_snakes a \<union> (if colliders k h nhs = {} then {} else insert k (colliders k h nhs))"
proof (induction k h nhs a rule: head_to_head.induct)
  case (1 k h a)
  show ?case by simp
next
  case (2 k h ok oh rest a)
  show ?case
  proof (cases "ok = k")
    case True
    with 2(1) show ?thesis by (simp add: colliders_Cons)
  next
    case ne: False
    show ?thesis
    proof (cases "h = oh")
      case True
      from 2(2)[OF ne True] ne True show ?thesis
        by (simp add: colliders_Cons) blast
    next
      case False
      from 2(3)[OF ne False] ne False show ?thesis
        by (simp add: colliders_Cons) 
    qed
  qed
qed

lemma head_to_head_reasons:
  "r_reasons (head_to_head k h nhs a) x =
     (if colliders k h nhs \<noteq> {} \<and> (x = k \<or> x \<in> colliders k h nhs)
      then Some ''head_collision'' else r_reasons a x)"
proof (induction k h nhs a rule: head_to_head.induct)
  case (1 k h a)
  show ?case by simp
next
  case (2 k h ok oh rest a)
  show ?case
  proof (cases "ok = k")
    case True
    with 2(1) show ?thesis by (simp add: colliders_Cons)
  next
    case ne: False
    show ?thesis
    proof (cases "h = oh")
      case True
      from 2(2)[OF ne True] ne True show ?thesis
        by (simp add: colliders_Cons)
    next
      case False
      from 2(3)[OF ne False] ne False show ?thesis
        by (simp add: colliders_Cons)
    qed
  qed
qed

lemma eat_food_fields [simp]:
  "dead_snakes (snd (eat_food k h p a)) = dead_snakes a"
  "r_reasons (snd (eat_food k h p a)) = r_reasons a"
  by (simp_all add: eat_food_def)

lemma eat_food_player:
  "fst (eat_food k h p a) = p\<lparr>food_collected := food_collected (fst (eat_food k h p a))\<rparr>"
  by (simp add: eat_food_def)

lemma body_check_fields [simp]:
  "r_food (body_check k h p a) = r_food a"
  "temp_occupied (body_check k h p a) = temp_occupied a"
  "snakes_to_grow (body_check k h p a) = snakes_to_grow a"
  by (simp_all add: body_check_def Let_def)

lemma body_check_dead:
  "dead_snakes a \<subseteq> dead_snakes (body_check k h p a)"
  "dead_snakes (body_check k h p a) \<subseteq> insert k (dead_snakes a)"
  by (auto simp: body_check_def Let_def)

lemma body_check_reasons:
  "x \<noteq> k \<or> k \<in> dead_snakes a \<Longrightarrow> r_reasons (body_check k h p a) x = r_reasons a x"
  by (auto simp: body_check_def Let_def)

lemma check_player_snd:
  "snd (check_player nhs k h p a) =
     body_check k h (fst (eat_food k h p a)) (head_to_head k h nhs (snd (eat_food k h p a)))"
  by (simp add: check_player_def split: prod.splits)

lemma check_player_fst:
  "fst (check_player nhs k h p a) = fst (eat_food k h p a)"
  by (simp add: check_player_def split: prod.splits)

lemma check_player_dead_mono:
  "dead_snakes a \<subseteq> dead_snakes (snd (check_player nhs k h p a))"
proof -
  let ?a1 = "snd (eat_food k h p a)"
  let ?a2 = "head_to_head k h nhs ?a1"
  have "dead_snakes a \<subseteq> dead_snakes ?a2" by (simp add: head_to_head_dead)
  also have "\<dots> \<subseteq> dead_snakes (body_check k h (fst (eat_food k h p a)) ?a2)"
    by (rule body_check_dead(1))
  finally show ?thesis by (simp add: check_player_snd)
qed

lemma third_pass_dead_mono:
  assumes "third_pass nhs ps a = Inr (ps', a')"
  shows "dead_snakes a \<subseteq> dead_snakes a'"
proof (rule third_pass_inv[OF assms, where I = "\<lambda>b. dead_snakes a \<subseteq> dead_snakes b"])
  show "dead_snakes a \<subseteq> dead_snakes a" ..
next
  fix k p h and b :: resolve
  assume "dead_snakes a \<subseteq> dead_snakes b"
  then show "dead_snakes a \<subseteq> dead_snakes (snd (check_player nhs k h p b))"
    using check_player_dead_mono[of b nhs k h p] by (rule subset_trans)
qed

lemma body_check_keeps:
  "k \<in> dead_snakes a \<Longrightarrow> r_reasons a k = Some v \<Longrightarrow>
   k \<in> dead_snakes (body_check k' h p a) \<and> r_reasons (body_check k' h p a) k = Some v"
  by (cases "k' = k") (simp_all add: body_check_def Let_def)

lemma third_pass_head_collision:
  assumes "third_pass nhs ps a = Inr (ps', a')" and "distinct (map fst ps)"
    and "(k, p) \<in> set ps" and "alive p" and "map_of nhs k = Some h"
    and "k2 \<noteq> k" and "(k2, h) \<in> set nhs"
  shows "k \<in> dead_snakes a' \<and> r_reasons a' k = Some ''head_collision''"
proof (rule third_pass_turn[OF assms(1-4), where I = "\<lambda>b. True"
      and Q = "\<lambda>b. k \<in> dead_snakes b \<and> r_reasons b k = Some ''head_collision''"])
  show True ..
next
  fix h' and b :: resolve
  assume "map_of nhs k = Some h'"
  with assms(5) have hh: "h' = h" by simp
  have c: "colliders k h nhs \<noteq> {}" using assms(6,7) by (auto simp: colliders_def)
  let ?b1 = "head_to_head k h nhs (snd (eat_food k h p b))"
  have d: "k \<in> dead_snakes ?b1" using c by (simp add: head_to_head_dead)
  have r: "r_reasons ?b1 k = Some ''head_collision''" using c by (simp add: head_to_head_reasons)
  show "k \<in> dead_snakes (snd (check_player nhs k h' p b)) \<and>
        r_reasons (snd (check_player nhs k h' p b)) k = Some ''head_collision''"
    unfolding hh check_player_snd by (rule body_check_keeps[OF d r])
next
  fix k' p' h' and b :: resolve
  assume q: "k \<in> dead_snakes b \<and> r_reasons b k = Some ''head_collision''"
  let ?b1 = "head_to_head k' h' nhs (snd (eat_food k' h' p' b))"
  have d: "k \<in> dead_snakes ?b1" using q by (simp add: head_to_head_dead)
  have r: "r_reasons ?b1 k = Some ''head_collision''" using q by (simp add: head_to_head_reasons)
  show "k \<in> dead_snakes (snd (check_player nhs k' h' p' b)) \<and>
        r_reasons (snd (check_player nhs k' h' p' b)) k = Some ''head_collision''"
    unfolding check_player_snd by (rule body_check_keeps[OF d r])
qed simp

lemma third_pass_lookup:
  assumes "third_pass nhs ps a = Inr (ps', a')" and "map_of ps k = Some p"
  shows "\<exists>p'. map_of ps' k = Some p' \<and> p' = p\<lparr>food_collected := food_collected p'\<rparr> \<and>
              (\<not> alive p \<longrightarrow> p' = p)"
  using assms
proof (induction ps arbitrary: ps' a)
  case Nil
  then show ?case by simp
next
  case (Cons kq ps)
  obtain k1 q where kq: "kq = (k1, q)" by (cases kq)
  show ?case
  proof (cases "alive q")
    case False
    from Cons.prems(1)[unfolded kq third_pass_Cons_dead[OF False]]
    obtain ps1 where r: "third_pass nhs ps a = Inr (ps1, a')" and e: "ps' = (k1, q) # ps1" by blast
    show ?thesis
    proof (cases "k1 = k")
      case True
      with Cons.prems(2) kq e show ?thesis by simp
    next
      case ne: False
      with Cons.prems(2) kq have "map_of ps k = Some p" by simp
      from Cons.IH[OF r this] ne e show ?thesis by simp
    qed
  next
    case True
    from Cons.prems(1)[unfolded kq third_pass_Cons_alive[OF True]]
    obtain h ps1 where r: "third_pass nhs ps (snd (check_player nhs k1 h q a)) = Inr (ps1, a')"
      and e: "ps' = (k1, fst (check_player nhs k1 h q a)) # ps1" by blast
    show ?thesis
    proof (cases "k1 = k")
      case True
      with Cons.prems(2) kq have "q = p" by simp
      with True e \<open>alive q\<close> show ?thesis
        using eat_food_player[of k h p a] by (simp add: check_player_fst)
    next
      case ne: False
      with Cons.prems(2) kq have "map_of ps k = Some p" by simp
      from Cons.IH[OF r this] ne e show ?thesis by simp
    qed
  qed
qed

lemma move_pass_Cons:
  "move_pass nhs grow dead ((k, p) # ps) occ = Inr (ps', occ') \<longleftrightarrow>
     (\<exists>p' ps1 occ1. moved nhs grow dead k p p' \<and> ps' = (k, p') # ps1 \<and>
        move_pass nhs grow dead ps occ1 = Inr (ps1, occ') \<and>
        occ1 = (if alive p \<and> k \<notin> dead then occ \<union> set (body p') else occ))"
  by (auto simp: cons_res_Inr moved_def Let_def split: option.splits)

lemma move_pass_lookup:
  assumes "move_pass nhs grow dead ps occ = Inr (ps', occ')" and "map_of ps k = Some p"
  shows "\<exists>p'. map_of ps' k = Some p' \<and> moved nhs grow dead k p p'"
  using assms
proof (induction ps arbitrary: ps' occ)
  case Nil
  then show ?case by simp
next
  case (Cons kq ps)
  obtain k1 q where kq: "kq = (k1, q)" by (cases kq)
  from Cons.prems(1)[unfolded kq move_pass_Cons]
  obtain q' ps1 occ1 where m: "moved nhs grow dead k1 q q'" and e: "ps' = (k1, q') # ps1"
    and r: "move_pass nhs grow dead ps occ1 = Inr (ps1, occ')" by blast
  show ?case
  proof (cases "k1 = k")
    case True
    with Cons.prems(2) kq have "q = p" by simp
    with True e m show ?thesis by simp
  next
    case False
    with Cons.prems(2) kq have "map_of ps k = Some p" by simp
    from Cons.IH[OF r this] False e show ?thesis by simp
  qed
qed

lemma clean_up_lookup:
  "map_of (fst (clean_up dead ps occ)) k =
     map_option (\<lambda>p. if k \<in> dead then p\<lparr>alive := False\<rparr> else p) (map_of ps k)"
  by (induction ps) (auto simp: clean_up_def)

lemma step_resolve_Inr:
  assumes "step_resolve g = Inr g'"
  obtains ps1 nhs ps2 a ps3 occ where
    "first_pass (players g) = Inr (ps1, nhs)"
    "third_pass nhs ps1
       \<lparr>r_food = food g, temp_occupied = build_temp_occupied ps1 (food g),
        snakes_to_grow = [], dead_snakes = {}, r_reasons = death_reasons g\<rparr> = Inr (ps2, a)"
    "move_pass nhs (snakes_to_grow a) (dead_snakes a) ps2 (set (r_food a)) = Inr (ps3, occ)"
    "g' = g\<lparr>players := fst (clean_up (dead_snakes a) ps3 occ), food := r_food a,
            occupied := snd (clean_up (dead_snakes a) ps3 occ), death_reasons := r_reasons a\<rparr>"
  using assms unfolding step_resolve_def
  by (auto split: sum.splits prod.splits)

lemma spawn_food_keeps:
  assumes "spawn_food g r = Some y"
  shows "players (fst y) = players g \<and> death_reasons (fst y) = death_reasons g \<and> tick (fst y) = tick g"
proof (rule spawn_food.raw_induct
    [where P = "\<lambda>g r y. players (fst y) = players g \<and> death_reasons (fst y) = death_reasons g \<and> tick (fst y) = tick g",
     OF _ assms])
  fix sf :: "game \<Rightarrow> rng \<Rightarrow> (game \<times> rng) option" and g r y
  assume ih: "\<And>g r y. sf g r = Some y \<Longrightarrow>
      players (fst y) = players g \<and> death_reasons (fst y) = death_reasons g \<and> tick (fst y) = tick g"
    and body: "(if int (length (food g)) < FOOD_COUNT
      then case find_empty_position (occupied g) r of
           (pos, r') \<Rightarrow>
             if pos \<notin> occupied g
             then sf (g\<lparr>food := food g @ [pos], occupied := insert pos (occupied g)\<rparr>) r'
             else sf g r'
      else Some (g, r)) = Some y"
  obtain pos r' where f: "find_empty_position (occupied g) r = (pos, r')"
    by (cases "find_empty_position (occupied g) r")
  show "players (fst y) = players g \<and> death_reasons (fst y) = death_reasons g \<and> tick (fst y) = tick g"
  proof (cases "int (length (food g)) < FOOD_COUNT")
    case False
    with body show ?thesis by auto
  next
    case True
    show ?thesis
    proof (cases "pos \<notin> occupied g")
      case True
      with body f \<open>int (length (food g)) < FOOD_COUNT\<close>
      have "sf (g\<lparr>food := food g @ [pos], occupied := insert pos (occupied g)\<rparr>) r' = Some y" by simp
      from ih[OF this] show ?thesis by simp
    next
      case False
      with body f \<open>int (length (food g)) < FOOD_COUNT\<close> have "sf g r' = Some y" by simp
      from ih[OF this] show ?thesis .
    qed
  qed
qed

lemma step_Inr:
  assumes "step g r = Some (Inr (g', r'))"
  obtains g1 where "step_resolve g = Inr g1" "players g' = players g1"
    "death_reasons g' = death_reasons g1" "tick g' = tick g1 + 1"
proof -
  from assms obtain g1 g2 where s: "step_resolve g = Inr g1" and f: "spawn_food g1 r = Some (g2, r')"
    and e: "g' = g2\<lparr>tick := tick g2 + 1\<rparr>"
    by (auto simp: step_def split: sum.splits option.splits)
  from spawn_food_keeps[OF f] e
  have "players g' = players g1" "death_reasons g' = death_reasons g1" "tick g' = tick g1 + 1"
    by simp_all
  with s that show ?thesis by blast
qed

text \<open>What a tick makes of one player.\<close>

lemma step_resolve_player:
  assumes "step_resolve g = Inr g'" and "map_of (players g) k = Some p"
  obtains ps1 nhs ps2 a fc where
    "first_pass (players g) = Inr (ps1, nhs)"
    "third_pass nhs ps1
       \<lparr>r_food = food g, temp_occupied = build_temp_occupied ps1 (food g),
        snakes_to_grow = [], dead_snakes = {}, r_reasons = death_reasons g\<rparr> = Inr (ps2, a)"
    "death_reasons g' = r_reasons a" "food g' = r_food a"
    "\<not> alive p \<Longrightarrow> map_of (players g') k = Some p"
    "alive p \<Longrightarrow> k \<in> dead_snakes a \<Longrightarrow>
       map_of (players g') k = Some ((commit_dir p)\<lparr>food_collected := fc, alive := False\<rparr>)"
    "alive p \<Longrightarrow> k \<notin> dead_snakes a \<Longrightarrow>
       \<exists>h. map_of nhs k = Some h \<and>
           map_of (players g') k = Some (move_player h (k \<in> set (snakes_to_grow a)) ((commit_dir p)\<lparr>food_collected := fc\<rparr>))"
proof -
  from step_resolve_Inr[OF assms(1)] obtain ps1 nhs ps2 a ps3 occ where
    fp: "first_pass (players g) = Inr (ps1, nhs)"
    and tp: "third_pass nhs ps1
       \<lparr>r_food = food g, temp_occupied = build_temp_occupied ps1 (food g),
        snakes_to_grow = [], dead_snakes = {}, r_reasons = death_reasons g\<rparr> = Inr (ps2, a)"
    and mp: "move_pass nhs (snakes_to_grow a) (dead_snakes a) ps2 (set (r_food a)) = Inr (ps3, occ)"
    and g': "g' = g\<lparr>players := fst (clean_up (dead_snakes a) ps3 occ), food := r_food a,
            occupied := snd (clean_up (dead_snakes a) ps3 occ), death_reasons := r_reasons a\<rparr>"
    by blast
  let ?p1 = "if alive p then commit_dir p else p"
  have l1: "map_of ps1 k = Some ?p1"
    using first_pass_players[OF fp] assms(2) by (simp add: map_of_committed)
  from third_pass_lookup[OF tp l1] obtain p2 where
    l2: "map_of ps2 k = Some p2" and p2: "p2 = ?p1\<lparr>food_collected := food_collected p2\<rparr>"
    and p2d: "\<not> alive ?p1 \<longrightarrow> p2 = ?p1"
    by blast
  from move_pass_lookup[OF mp l2] obtain p3 where
    l3: "map_of ps3 k = Some p3" and m: "moved nhs (snakes_to_grow a) (dead_snakes a) k p2 p3"
    by blast
  have l4: "map_of (players g') k = Some (if k \<in> dead_snakes a then p3\<lparr>alive := False\<rparr> else p3)"
    by (simp add: g' clean_up_lookup l3)
  have al: "alive p2 = alive p" by (subst p2) simp
  have c1: "map_of (players g') k = Some p" if n: "\<not> alive p"
  proof -
    from n p2d have "p2 = p" by simp
    with m n have "p3 = p" by (simp add: moved_def)
    with l4 n show ?thesis by simp
  qed
  have c2: "map_of (players g') k = Some ((commit_dir p)\<lparr>food_collected := food_collected p2, alive := False\<rparr>)"
    if y: "alive p" and d: "k \<in> dead_snakes a"
  proof -
    from y p2 have e: "p2 = (commit_dir p)\<lparr>food_collected := food_collected p2\<rparr>" by simp
    from m al y d have "p3 = p2\<lparr>alive := False\<rparr>" by (simp add: moved_def)
    with l4 d have "map_of (players g') k = Some (p2\<lparr>alive := False\<rparr>)" by simp
    then show ?thesis by (subst (asm) e) simp
  qed
  have c3: "\<exists>h. map_of nhs k = Some h \<and>
           map_of (players g') k = Some (move_player h (k \<in> set (snakes_to_grow a)) ((commit_dir p)\<lparr>food_collected := food_collected p2\<rparr>))"
    if y: "alive p" and d: "k \<notin> dead_snakes a"
  proof -
    from y p2 have e: "p2 = (commit_dir p)\<lparr>food_collected := food_collected p2\<rparr>" by simp
    from m al y d obtain h where h: "map_of nhs k = Some h"
      and p3: "p3 = move_player h (k \<in> set (snakes_to_grow a)) p2" by (auto simp: moved_def)
    from l4 d p3 have "map_of (players g') k = Some (move_player h (k \<in> set (snakes_to_grow a)) p2)" by simp
    then have "map_of (players g') k = Some (move_player h (k \<in> set (snakes_to_grow a)) ((commit_dir p)\<lparr>food_collected := food_collected p2\<rparr>))"
      by (subst (asm) e) simp
    with h show ?thesis by blast
  qed
  have dr: "death_reasons g' = r_reasons a" "food g' = r_food a" by (simp_all add: g')
  show ?thesis
    by (rule that[OF fp tp dr c1 c2 c3])
qed

lemma fst_committed [simp]: "fst (committed kp) = fst kp"
  by (simp add: committed_def)

lemma map_fst_committed: "map fst (map committed ps) = map fst ps"
  by (simp add: comp_def)

lemma committed_mem:
  "(k, p) \<in> set ps \<Longrightarrow> alive p \<Longrightarrow> (k, commit_dir p) \<in> set (map committed ps)"
  by (force simp: committed_def)

lemma perm_dict:
  assumes "distinct (map fst qs)" and "mset ps = mset qs"
  shows "distinct (map fst ps)" and "map_of ps = map_of qs"
proof -
  from assms(2) have "mset (map fst ps) = mset (map fst qs)" by simp
  from mset_eq_imp_distinct_iff[OF this] assms(1) show d: "distinct (map fst ps)" by simp
  from assms(2) have s: "set ps = set qs" by (rule mset_eq_setD)
  show "map_of ps = map_of qs"
    by (rule map_of_inject_set[THEN iffD2, OF d assms(1) s])
qed

lemma head_collision_resolve:
  assumes "distinct (map fst (players g))"
    and "map_of (players g) k = Some p" and "alive p"
    and "map_of (players g) k2 = Some p2" and "alive p2" and "k2 \<noteq> k"
    and "project_head (commit_dir p) = project_head (commit_dir p2)"
    and "step_resolve g = Inr g'"
  shows "\<exists>fc. map_of (players g') k = Some ((commit_dir p)\<lparr>food_collected := fc, alive := False\<rparr>) \<and>
          death_reasons g' k = Some ''head_collision''"
proof (rule step_resolve_player[OF assms(8,2)])
  fix ps1 nhs ps2 a fc
  assume fp: "first_pass (players g) = Inr (ps1, nhs)"
    and tp: "third_pass nhs ps1
       \<lparr>r_food = food g, temp_occupied = build_temp_occupied ps1 (food g),
        snakes_to_grow = [], dead_snakes = {}, r_reasons = death_reasons g\<rparr> = Inr (ps2, a)"
    and dr: "death_reasons g' = r_reasons a"
    and c2: "alive p \<Longrightarrow> k \<in> dead_snakes a \<Longrightarrow>
       map_of (players g') k = Some ((commit_dir p)\<lparr>food_collected := fc, alive := False\<rparr>)"
  from assms(2) have mem: "(k, p) \<in> set (players g)" by (rule map_of_SomeD)
  from assms(4) have mem2: "(k2, p2) \<in> set (players g)" by (rule map_of_SomeD)
  from first_pass_alive_body[OF fp mem assms(3)] obtain h where
    h: "project_head (commit_dir p) = Inr h" by blast
  with assms(7) have h2: "project_head (commit_dir p2) = Inr h" by simp
  have l: "map_of nhs k = Some h"
    using first_pass_lookup[OF fp assms(1)] assms(2,3) h by blast
  have c: "(k2, h) \<in> set nhs"
    using first_pass_heads[OF fp] mem2 assms(5) h2 by blast
  have ps1: "ps1 = map committed (players g)" by (rule first_pass_players[OF fp])
  have d1: "distinct (map fst ps1)" using assms(1) unfolding ps1 map_fst_committed .
  have m1: "(k, commit_dir p) \<in> set ps1" unfolding ps1 by (rule committed_mem[OF mem assms(3)])
  have a1: "alive (commit_dir p)" using assms(3) by simp
  from third_pass_head_collision[OF tp d1 m1 a1 l assms(6) c]
  have kd: "k \<in> dead_snakes a" and kr: "r_reasons a k = Some ''head_collision''" by simp_all
  from c2[OF assms(3) kd] dr kr
  show "\<exists>fc. map_of (players g') k = Some ((commit_dir p)\<lparr>food_collected := fc, alive := False\<rparr>) \<and>
          death_reasons g' k = Some ''head_collision''"
    by (intro exI[of _ fc]) simp
qed

text \<open>
  C2. If two distinct alive players project the same new head cell, then when the tick
  has resolved each of them is not alive, has death cause \<^verbatim>\<open>head_collision\<close>, and has
  the body it had before (the theorem is stated for one of them, \<open>k\<close>; the other one is
  \<open>k2\<close>, and any further player with that head is covered by the same statement). This
  holds for every order \<open>ps\<close> in which the dictionary \<^verbatim>\<open>players\<close> may hold, and so
  iterate, the same entries. \<open>step_resolve\<close> is a total function; its result is \<open>Inr\<close>
  unless an alive player has an empty body (\<^verbatim>\<open>IndexError\<close>).
\<close>

theorem head_collision_kills_all:
  assumes "distinct (map fst (players g))" and "mset ps = mset (players g)"
    and "map_of (players g) k = Some p" and "alive p"
    and "map_of (players g) k2 = Some p2" and "alive p2" and "k2 \<noteq> k"
    and "project_head (commit_dir p) = project_head (commit_dir p2)"
    and "step_resolve (g\<lparr>players := ps\<rparr>) = Inr g'"
  shows "\<exists>p'. map_of (players g') k = Some p' \<and> \<not> alive p' \<and> body p' = body p \<and>
           death_reasons g' k = Some ''head_collision''"
proof -
  let ?g = "g\<lparr>players := ps\<rparr>"
  from perm_dict[OF assms(1,2)] have d: "distinct (map fst (players ?g))"
    and m: "map_of ps = map_of (players g)" by simp_all
  have "\<exists>fc. map_of (players g') k = Some ((commit_dir p)\<lparr>food_collected := fc, alive := False\<rparr>) \<and>
          death_reasons g' k = Some ''head_collision''"
    by (rule head_collision_resolve[OF d _ assms(4) _ assms(6,7,8,9)]) (simp_all add: m assms(3,5))
  then obtain fc where "map_of (players g') k = Some ((commit_dir p)\<lparr>food_collected := fc, alive := False\<rparr>)"
    and "death_reasons g' k = Some ''head_collision''" by blast
  then show ?thesis by simp
qed

lemma spawn_food_enough:
  "\<not> int (length (food g)) < FOOD_COUNT \<Longrightarrow> spawn_food g r = Some (g, r)"
  by (subst spawn_food.simps) simp

lemmas resolve_eval =
  step_resolve_def snake_def commit_dir_def project_head_def clamp_pos_def
  build_temp_occupied_def check_player_def eat_food_def body_check_def move_player_def clean_up_def
  cons_res_def WIDTH_def HEIGHT_def START_LENGTH_def ustr_def

theorem head_collision_kills_all_witness:
  "\<exists>g'. step_resolve (head_on\<lparr>players := rev (players head_on)\<rparr>) = Inr g' \<and>
     (\<exists>p'. map_of (players g') (ustr ''a'') = Some p' \<and> \<not> alive p' \<and>
        body p' = body (snake (ustr ''a'') [(5, 5), (4, 5), (3, 5)] (1, 0)) \<and>
        death_reasons g' (ustr ''a'') = Some ''head_collision'')"
proof -
  have "\<exists>g1. step_resolve (head_on\<lparr>players := rev (players head_on)\<rparr>) = Inr g1"
    by (simp add: head_on_def resolve_eval)
  then obtain g1 where s: "step_resolve (head_on\<lparr>players := rev (players head_on)\<rparr>) = Inr g1"
    by blast
  have d: "distinct (map fst (players head_on))" by (simp add: head_on_def ustr_def)
  have p: "mset (rev (players head_on)) = mset (players head_on)" by simp
  have ma: "map_of (players head_on) (ustr ''a'') = Some (snake (ustr ''a'') [(5, 5), (4, 5), (3, 5)] (1, 0))"
    by (simp add: head_on_def)
  have mb: "map_of (players head_on) (ustr ''b'') = Some (snake (ustr ''b'') [(7, 5), (8, 5), (9, 5)] (- 1, 0))"
    by (simp add: head_on_def ustr_def)
  have aa: "alive (snake (ustr ''a'') [(5, 5), (4, 5), (3, 5)] (1, 0))"
    and ab: "alive (snake (ustr ''b'') [(7, 5), (8, 5), (9, 5)] (- 1, 0))"
    by (simp_all add: snake_def)
  have ne: "ustr ''b'' \<noteq> ustr ''a''" by (simp add: ustr_def)
  have eq: "project_head (commit_dir (snake (ustr ''a'') [(5, 5), (4, 5), (3, 5)] (1, 0)))
      = project_head (commit_dir (snake (ustr ''b'') [(7, 5), (8, 5), (9, 5)] (- 1, 0)))"
    by (simp add: snake_def commit_dir_def project_head_def clamp_pos_def WIDTH_def HEIGHT_def)
  from head_collision_kills_all[OF d p ma aa mb ab ne eq s] s show ?thesis by blast
qed

text \<open>
  A completed tick returns the players and death causes of \<open>step_resolve\<close>, so the
  outcome of a head collision is also that of every tick that returns.
\<close>

lemma head_collision_after_step:
  assumes "distinct (map fst (players g))"
    and "map_of (players g) k = Some p" and "alive p"
    and "map_of (players g) k2 = Some p2" and "alive p2" and "k2 \<noteq> k"
    and "project_head (commit_dir p) = project_head (commit_dir p2)"
    and "step g r = Some (Inr (g', r'))"
  shows "\<exists>p'. map_of (players g') k = Some p' \<and> \<not> alive p' \<and> body p' = body p \<and>
           death_reasons g' k = Some ''head_collision''"
proof -
  from step_Inr[OF assms(8)] obtain g1 where s: "step_resolve g = Inr g1"
    and e: "players g' = players g1" "death_reasons g' = death_reasons g1" by blast
  from head_collision_resolve[OF assms(1-7) s]
  obtain fc where "map_of (players g1) k = Some ((commit_dir p)\<lparr>food_collected := fc, alive := False\<rparr>)"
    and "death_reasons g1 k = Some ''head_collision''" by blast
  then show ?thesis by (simp add: e)
qed

subsection \<open>Growth, score and disjoint bodies\<close>

lemma check_player_food:
  "r_food (snd (check_player nhs k h p a)) = r_food (snd (eat_food k h p a))"
  "temp_occupied (snd (check_player nhs k h p a)) = temp_occupied (snd (eat_food k h p a))"
  "snakes_to_grow (snd (check_player nhs k h p a)) = snakes_to_grow (snd (eat_food k h p a))"
  by (simp_all add: check_player_snd)


lemma eat_food_food_subset: "set (r_food (snd (eat_food k h p a))) \<subseteq> set (r_food a)"
  using set_remove1_subset[of h "r_food a"] by (simp add: eat_food_def)



lemma eat_food_temp:
  "temp_occupied (snd (eat_food k h p a)) =
     (if h \<in> set (r_food a) then temp_occupied a - {h} else temp_occupied a)"
  by (simp add: eat_food_def)






lemma third_pass_keys:
  "third_pass nhs ps a = Inr (ps', a') \<Longrightarrow> map fst ps' = map fst ps"
proof (induction ps arbitrary: ps' a)
  case Nil
  then show ?case by simp
next
  case (Cons kq ps)
  obtain k1 q where kq: "kq = (k1, q)" by (cases kq)
  show ?case
  proof (cases "alive q")
    case False
    from Cons.prems[unfolded kq third_pass_Cons_dead[OF False]]
    obtain ps1 where r: "third_pass nhs ps a = Inr (ps1, a')" and e: "ps' = (k1, q) # ps1" by blast
    from Cons.IH[OF r] e kq show ?thesis by simp
  next
    case True
    from Cons.prems[unfolded kq third_pass_Cons_alive[OF True]]
    obtain h ps1 where r: "third_pass nhs ps (snd (check_player nhs k1 h q a)) = Inr (ps1, a')"
      and e: "ps' = (k1, fst (check_player nhs k1 h q a)) # ps1" by blast
    from Cons.IH[OF r] e kq show ?thesis by simp
  qed
qed

lemma move_pass_keys:
  "move_pass nhs grow dead ps occ = Inr (ps', occ') \<Longrightarrow> map fst ps' = map fst ps"
proof (induction ps arbitrary: ps' occ)
  case Nil
  then show ?case by simp
next
  case (Cons kq ps)
  obtain k1 q where kq: "kq = (k1, q)" by (cases kq)
  from Cons.prems[unfolded kq move_pass_Cons]
  obtain q' ps1 occ1 where e: "ps' = (k1, q') # ps1"
    and r: "move_pass nhs grow dead ps occ1 = Inr (ps1, occ')" by blast
  from Cons.IH[OF r] e kq show ?case by simp
qed

lemma clean_up_keys: "map fst (fst (clean_up dead ps occ)) = map fst ps"
  by (induction ps) (auto simp: clean_up_def)

lemma step_resolve_keys:
  assumes "step_resolve g = Inr g'"
  shows "map fst (players g') = map fst (players g)"
proof (rule step_resolve_Inr[OF assms])
  fix ps1 nhs ps2 a ps3 occ
  assume fp: "first_pass (players g) = Inr (ps1, nhs)"
    and tp: "third_pass nhs ps1
       \<lparr>r_food = food g, temp_occupied = build_temp_occupied ps1 (food g),
        snakes_to_grow = [], dead_snakes = {}, r_reasons = death_reasons g\<rparr> = Inr (ps2, a)"
    and mp: "move_pass nhs (snakes_to_grow a) (dead_snakes a) ps2 (set (r_food a)) = Inr (ps3, occ)"
    and g': "g' = g\<lparr>players := fst (clean_up (dead_snakes a) ps3 occ), food := r_food a,
            occupied := snd (clean_up (dead_snakes a) ps3 occ), death_reasons := r_reasons a\<rparr>"
  have "map fst (players g') = map fst ps3" by (simp add: g' clean_up_keys)
  also have "\<dots> = map fst ps2" by (rule move_pass_keys[OF mp])
  also have "\<dots> = map fst ps1" by (rule third_pass_keys[OF tp])
  also have "\<dots> = map fst (players g)"
    unfolding first_pass_players[OF fp] by (rule map_fst_committed)
  finally show ?thesis .
qed

text \<open>A snake whose projected head lies in the body of another alive snake dies.\<close>

lemma third_pass_body_collision:
  assumes tp: "third_pass nhs ps a = Inr (ps', a')" and d: "distinct (map fst ps)"
    and mem: "(k, p) \<in> set ps" and al: "alive p" and l: "map_of nhs k = Some h"
    and hC: "h \<in> C" and Ct: "C \<subseteq> temp_occupied a" and Cf: "C \<inter> set (r_food a) = {}"
    and hb: "h \<notin> set (body p)"
  shows "k \<in> dead_snakes a'"
proof (rule third_pass_turn[OF tp d mem al, where I = "\<lambda>b. C \<subseteq> temp_occupied b \<and> C \<inter> set (r_food b) = {}"
      and Q = "\<lambda>b. k \<in> dead_snakes b"])
  show "C \<subseteq> temp_occupied a \<and> C \<inter> set (r_food a) = {}" using Ct Cf ..
next
  fix k' p' h' and b :: resolve
  assume i: "C \<subseteq> temp_occupied b \<and> C \<inter> set (r_food b) = {}"
  have 1: "C \<subseteq> temp_occupied (snd (check_player nhs k' h' p' b))"
    using i by (auto simp: check_player_food eat_food_temp)
  have 2: "C \<inter> set (r_food (snd (check_player nhs k' h' p' b))) = {}"
    using i eat_food_food_subset[of k' h' p' b] by (auto simp: check_player_food)
  from 1 2 show "C \<subseteq> temp_occupied (snd (check_player nhs k' h' p' b)) \<and>
      C \<inter> set (r_food (snd (check_player nhs k' h' p' b))) = {}" ..
next
  fix h' and b :: resolve
  assume "map_of nhs k = Some h'" and i: "C \<subseteq> temp_occupied b \<and> C \<inter> set (r_food b) = {}"
  with l have hh: "h' = h" by simp
  from i hC have nf: "h \<notin> set (r_food b)" and ht: "h \<in> temp_occupied b" by auto
  from nf have e: "eat_food k h p b = (p, b)" by (simp add: eat_food_def)
  let ?b2 = "head_to_head k h nhs b"
  have t2: "h \<in> temp_occupied ?b2" using ht by simp
  have ex: "body p \<noteq> [] \<Longrightarrow> h \<noteq> last (body p)" using hb last_in_set[of "body p"] by auto
  have "k \<in> dead_snakes (body_check k h p ?b2)"
    using t2 ex by (auto simp: body_check_def Let_def)
  then show "k \<in> dead_snakes (snd (check_player nhs k h' p b))"
    by (simp add: hh check_player_snd e)
next
  fix k' p' h' and b :: resolve
  assume "k \<in> dead_snakes b"
  then show "k \<in> dead_snakes (snd (check_player nhs k' h' p' b))"
    using check_player_dead_mono[of b nhs k' h' p'] by blast
qed

lemma move_player_body:
  "set (body (move_player h gr p)) \<subseteq> insert h (set (body p))"
proof -
  have "set (butlast (h # body p)) \<subseteq> set (h # body p)"
    by (rule subsetI) (erule in_set_butlastD)
  then show ?thesis by (auto simp: move_player_def Let_def)
qed

lemma move_player_alive [simp]: "alive (move_player h gr p) = alive p"
  by (simp add: move_player_def Let_def)

lemma temp_occupied_body:
  "(k, p) \<in> set ps \<Longrightarrow> alive p \<Longrightarrow> set (body p) \<subseteq> build_temp_occupied ps fd"
  by (force simp: build_temp_occupied_def)

text \<open>
  A player that is alive when the tick has resolved was alive before, has moved onto its
  projected head, which no other alive player projected and which lay in no other alive
  body that was free of food and disjoint from its own.
\<close>

lemma resolved_survivor:
  assumes res: "step_resolve g = Inr g'" and d: "distinct (map fst (players g))"
    and l': "map_of (players g') k = Some p'" and al': "alive p'"
  obtains p h where "map_of (players g) k = Some p" "alive p"
    "project_head (commit_dir p) = Inr h" "set (body p') \<subseteq> insert h (set (body p))"
    "\<And>k2 p2. k2 \<noteq> k \<Longrightarrow> map_of (players g) k2 = Some p2 \<Longrightarrow> alive p2 \<Longrightarrow>
        project_head (commit_dir p2) \<noteq> Inr h"
    "\<And>k2 p2. k2 \<noteq> k \<Longrightarrow> map_of (players g) k2 = Some p2 \<Longrightarrow> alive p2 \<Longrightarrow>
        set (body p2) \<inter> set (food g) = {} \<Longrightarrow> set (body p) \<inter> set (body p2) = {} \<Longrightarrow>
        h \<notin> set (body p2)"
proof -
  from l' have "k \<in> fst ` set (players g')" by (force dest: map_of_SomeD)
  then have "k \<in> set (map fst (players g))" using step_resolve_keys[OF res] by (metis set_map)
  then obtain p where l: "map_of (players g) k = Some p"
    by (cases "map_of (players g) k") (auto simp: map_of_eq_None_iff)
  from l have mem: "(k, p) \<in> set (players g)" by (rule map_of_SomeD)
  show ?thesis
  proof (rule step_resolve_player[OF res l])
    fix ps1 nhs ps2 a fc
    assume fp: "first_pass (players g) = Inr (ps1, nhs)"
      and tp: "third_pass nhs ps1
         \<lparr>r_food = food g, temp_occupied = build_temp_occupied ps1 (food g),
          snakes_to_grow = [], dead_snakes = {}, r_reasons = death_reasons g\<rparr> = Inr (ps2, a)"
      and c1: "\<not> alive p \<Longrightarrow> map_of (players g') k = Some p"
      and c2: "alive p \<Longrightarrow> k \<in> dead_snakes a \<Longrightarrow>
         map_of (players g') k = Some ((commit_dir p)\<lparr>food_collected := fc, alive := False\<rparr>)"
      and c3: "alive p \<Longrightarrow> k \<notin> dead_snakes a \<Longrightarrow>
         \<exists>h. map_of nhs k = Some h \<and>
             map_of (players g') k = Some (move_player h (k \<in> set (snakes_to_grow a)) ((commit_dir p)\<lparr>food_collected := fc\<rparr>))"
    let ?a0 = "\<lparr>r_food = food g, temp_occupied = build_temp_occupied ps1 (food g),
          snakes_to_grow = [], dead_snakes = {}, r_reasons = death_reasons g\<rparr>"
    have al: "alive p"
    proof (rule ccontr)
      assume n: "\<not> alive p"
      from c1[OF n] l' have "p' = p" by simp
      with n al' show False by simp
    qed
    have nd: "k \<notin> dead_snakes a"
    proof
      assume "k \<in> dead_snakes a"
      from c2[OF al this] l' have "p' = (commit_dir p)\<lparr>food_collected := fc, alive := False\<rparr>" by simp
      with al' show False by simp
    qed
    from first_pass_alive_body[OF fp mem al] obtain h where
      h: "project_head (commit_dir p) = Inr h" by blast
    have lh: "map_of nhs k = Some h"
      using first_pass_lookup[OF fp d] l al h by blast
    from c3[OF al nd] lh l'
    have p': "p' = move_player h (k \<in> set (snakes_to_grow a)) ((commit_dir p)\<lparr>food_collected := fc\<rparr>)"
      by auto
    have sub: "set (body p') \<subseteq> insert h (set (body p))"
      using move_player_body[of h "k \<in> set (snakes_to_grow a)" "(commit_dir p)\<lparr>food_collected := fc\<rparr>"]
      by (simp add: p')
    have ps1: "ps1 = map committed (players g)" by (rule first_pass_players[OF fp])
    have d1: "distinct (map fst ps1)" using d unfolding ps1 map_fst_committed .
    have m1: "(k, commit_dir p) \<in> set ps1" unfolding ps1 by (rule committed_mem[OF mem al])
    have a1: "alive (commit_dir p)" using al by simp
    have heads: "project_head (commit_dir p2) \<noteq> Inr h"
      if "k2 \<noteq> k" "map_of (players g) k2 = Some p2" "alive p2" for k2 p2
    proof
      assume e: "project_head (commit_dir p2) = Inr h"
      from that(2) have "(k2, p2) \<in> set (players g)" by (rule map_of_SomeD)
      with that(3) e have "(k2, h) \<in> set nhs" using first_pass_heads[OF fp] by blast
      from third_pass_head_collision[OF tp d1 m1 a1 lh that(1) this] nd show False by simp
    qed
    have bodies: "h \<notin> set (body p2)"
      if "k2 \<noteq> k" "map_of (players g) k2 = Some p2" "alive p2"
        "set (body p2) \<inter> set (food g) = {}" "set (body p) \<inter> set (body p2) = {}" for k2 p2
    proof
      assume hin: "h \<in> set (body p2)"
      from that(2) have "(k2, p2) \<in> set (players g)" by (rule map_of_SomeD)
      then have "(k2, commit_dir p2) \<in> set ps1" unfolding ps1 by (rule committed_mem[OF _ that(3)])
      from temp_occupied_body[OF this, of "food g"] that(3)
      have Ct: "set (body p2) \<subseteq> temp_occupied ?a0" by simp
      have Cf: "set (body p2) \<inter> set (r_food ?a0) = {}" using that(4) by simp
      have hb: "h \<notin> set (body (commit_dir p))" using hin that(5) by auto
      from third_pass_body_collision[OF tp d1 m1 a1 lh hin Ct Cf hb] nd show False by simp
    qed
    show ?thesis
      by (rule that[OF l al h sub heads bodies])
  qed
qed

text \<open>
  C1, as amended. If the bodies of the alive players are pairwise disjoint and no food
  lies on the body of an alive player, then once the tick has resolved the bodies of the
  alive players are pairwise disjoint.
\<close>

theorem step_keeps_bodies_disjoint:
  assumes "distinct (map fst (players g))" and "bodies_disjoint (players g)" and "food_clear g"
    and "step_resolve g = Inr g'"
  shows "bodies_disjoint (players g')"
proof -
  have d': "distinct (map fst (players g'))"
    using assms(1) step_resolve_keys[OF assms(4)] by simp
  have "set (body p1') \<inter> set (body p2') = {}"
    if m1: "(k1, p1') \<in> set (players g')" and m2: "(k2, p2') \<in> set (players g')"
      and ne: "k1 \<noteq> k2" and a1: "alive p1'" and a2: "alive p2'" for k1 p1' k2 p2'
  proof -
    from d' m1 have l1: "map_of (players g') k1 = Some p1'" by simp
    from d' m2 have l2: "map_of (players g') k2 = Some p2'" by simp
    from resolved_survivor[OF assms(4,1) l1 a1] obtain p1 h1 where
      s1: "map_of (players g) k1 = Some p1" "alive p1" "project_head (commit_dir p1) = Inr h1"
        "set (body p1') \<subseteq> insert h1 (set (body p1))"
      and b1: "\<And>k p. k \<noteq> k1 \<Longrightarrow> map_of (players g) k = Some p \<Longrightarrow> alive p \<Longrightarrow>
        set (body p) \<inter> set (food g) = {} \<Longrightarrow> set (body p1) \<inter> set (body p) = {} \<Longrightarrow>
        h1 \<notin> set (body p)"
      by metis
    from resolved_survivor[OF assms(4,1) l2 a2] obtain p2 h2 where
      s2: "map_of (players g) k2 = Some p2" "alive p2" "project_head (commit_dir p2) = Inr h2"
        "set (body p2') \<subseteq> insert h2 (set (body p2))"
      and n2: "\<And>k p. k \<noteq> k2 \<Longrightarrow> map_of (players g) k = Some p \<Longrightarrow> alive p \<Longrightarrow>
        project_head (commit_dir p) \<noteq> Inr h2"
      and b2: "\<And>k p. k \<noteq> k2 \<Longrightarrow> map_of (players g) k = Some p \<Longrightarrow> alive p \<Longrightarrow>
        set (body p) \<inter> set (food g) = {} \<Longrightarrow> set (body p2) \<inter> set (body p) = {} \<Longrightarrow>
        h2 \<notin> set (body p)"
      by metis
    from s1(1) have e1: "(k1, p1) \<in> set (players g)" by (rule map_of_SomeD)
    from s2(1) have e2: "(k2, p2) \<in> set (players g)" by (rule map_of_SomeD)
    from assms(2) e1 e2 ne s1(2) s2(2) have dis: "set (body p1) \<inter> set (body p2) = {}"
      by (fastforce simp: bodies_disjoint_def)
    from assms(3) e1 s1(2) have f1: "set (body p1) \<inter> set (food g) = {}"
      by (fastforce simp: food_clear_def)
    from assms(3) e2 s2(2) have f2: "set (body p2) \<inter> set (food g) = {}"
      by (fastforce simp: food_clear_def)
    from b1[OF ne[symmetric] s2(1,2) f2 dis] have x1: "h1 \<notin> set (body p2)" .
    from dis have dis': "set (body p2) \<inter> set (body p1) = {}" by blast
    from b2[OF ne s1(1,2) f1 dis'] have x2: "h2 \<notin> set (body p1)" .
    from n2[OF ne s1(1,2)] s1(3) have x3: "h1 \<noteq> h2" by auto
    from s1(4) s2(4) dis x1 x2 x3 show ?thesis by blast
  qed
  then show ?thesis unfolding bodies_disjoint_def by blast
qed



theorem step_keeps_bodies_disjoint_witness:
  "\<exists>g'. step_resolve two_snakes = Inr g' \<and> bodies_disjoint (players g')"
proof -
  have "\<exists>g1. step_resolve two_snakes = Inr g1"
    by (simp add: two_snakes_def resolve_eval)
  then obtain g1 where s: "step_resolve two_snakes = Inr g1" by blast
  have d: "distinct (map fst (players two_snakes))" by (simp add: two_snakes_def ustr_def)
  have b: "bodies_disjoint (players two_snakes)"
    by (simp add: bodies_disjoint_def two_snakes_def snake_def)
  have f: "food_clear two_snakes"
    by (simp add: food_clear_def two_snakes_def snake_def)
  from step_keeps_bodies_disjoint[OF d b f s] s show ?thesis by blast
qed

text \<open>
  C1 as stated fails. In \<open>crowded\<close> the only snake is \<^verbatim>\<open>c\<close>, and no food lies on it. A new
  player \<^verbatim>\<open>p\<close> joins; every one of the 100 spawn attempts draws the anchor \<open>(5, 2)\<close>,
  whose body would cover the food cell \<open>(4, 2)\<close>, so \<^verbatim>\<open>add_player\<close> falls back to the
  unchecked spawn at \<open>(0, 0)\<close>, whose body covers the cell \<open>(39, 0)\<close> of \<^verbatim>\<open>c\<close>. Both snakes
  survive the next tick and still share that cell.
\<close>

theorem overlap_persists_counterexample:
  "bodies_disjoint (players crowded) \<and> food_clear crowded \<and>
   (case add_player 0 (ustr ''p'') None crowded (\<lambda>n. 0, 0) of
      (g1, r1) \<Rightarrow>
        map_option body (map_of (players g1) (ustr ''p'')) = Some [(0, 0), (39, 0), (38, 0)] \<and>
        (case step_resolve g1 of
           Inl e \<Rightarrow> False
         | Inr g2 \<Rightarrow>
             map_option (\<lambda>q. (alive q, body q)) (map_of (players g2) (ustr ''c'')) =
               Some (True, [(39, 28), (39, 29), (39, 0)]) \<and>
             map_option (\<lambda>q. (alive q, body q)) (map_of (players g2) (ustr ''p'')) =
               Some (True, [(1, 0), (0, 0), (39, 0)]) \<and>
             \<not> bodies_disjoint (players g2)))"
  by code_simp

text \<open>
  Food under a body is enough for a new overlap: the bodies of \<^verbatim>\<open>a\<close> and \<^verbatim>\<open>b\<close> are
  disjoint, \<^verbatim>\<open>a\<close> eats the food that lies on the body of \<^verbatim>\<open>b\<close>, which takes the cell out
  of \<^verbatim>\<open>temp_occupied\<close>, and moves onto it.
\<close>

lemma food_under_body_overlap:
  "bodies_disjoint (players food_under_body) \<and> \<not> food_clear food_under_body \<and>
   (case step_resolve food_under_body of
      Inl e \<Rightarrow> False
    | Inr g2 \<Rightarrow>
        map_option (\<lambda>q. (alive q, body q)) (map_of (players g2) (ustr ''a'')) =
          Some (True, [(6, 5), (5, 5), (4, 5), (3, 5)]) \<and>
        map_option (\<lambda>q. (alive q, body q)) (map_of (players g2) (ustr ''b'')) =
          Some (True, [(6, 3), (6, 4), (6, 5)]) \<and>
        \<not> bodies_disjoint (players g2))"
  by code_simp

end
